theory Spec2Isabelle
  imports Main "HOL-Library.Sublist"
begin

section \<open>The static-file middlewares of the dev server (server/middlewares/static.ts)\<close>

text \<open>
  Strings are byte lists: an ASCII character is one \<^typ>\<open>char\<close>, any other character is
  its UTF-8 bytes. \<open>s.startsWith(t)\<close> is \<^term>\<open>prefix t s\<close>, \<open>s.endsWith(t)\<close> is
  \<^term>\<open>suffix t s\<close>, \<open>s.slice(n)\<close> is \<^term>\<open>drop n s\<close>.
\<close>

subsection \<open>Values and what is thrown\<close>

text \<open>
  A \<open>throw\<close> statement throws any value, and \<open>catch (e)\<close> receives it: \<open>undefined\<close>, \<open>null\<close>, a
  boolean, a number (an integer here), a string, or an object, which is a bag of
  properties. The faults of the platform (\<open>URIError\<close>, \<open>TypeError\<close>, the errors of the file
  system) are objects.
\<close>

datatype js_value =
  JUndefined | JNull | JBoolean bool | JNumber int | JString string
  | JObject "(string \<times> js_value) list"

type_synonym js_error = js_value

definition TypeError :: js_error where
  "TypeError = JObject [(''name'', JString ''TypeError'')]"

definition URIError :: js_error where
  \<comment> \<open>what \<open>decodeURI\<close> and \<open>encodeURI\<close> throw\<close>
  "URIError = JObject [(''name'', JString ''URIError''), (''message'', JString ''URI malformed'')]"

fun truthy :: "js_value \<Rightarrow> bool" where
  \<comment> \<open>the test \<open>e &&\<close>\<close>
  "truthy JUndefined = False"
| "truthy JNull = False"
| "truthy (JBoolean b) = b"
| "truthy (JNumber n) = (n \<noteq> 0)"
| "truthy (JString s) = (s \<noteq> [])"
| "truthy (JObject ps) = True"

fun has_prop :: "string \<Rightarrow> js_value \<Rightarrow> js_error + bool" where
  \<comment> \<open>\<open>name in e\<close>: the operator throws a \<open>TypeError\<close> when \<open>e\<close> is no object\<close>
  "has_prop name (JObject ps) = Inr (map_of ps name \<noteq> None)"
| "has_prop name v = Inl TypeError"

fun get_prop :: "js_value \<Rightarrow> string \<Rightarrow> js_error + js_value" where
  \<comment> \<open>\<open>e.name\<close> for the names the code reads, \<open>code\<close> and \<open>path\<close>: a missing property reads
      as \<open>undefined\<close>, and reading a property of \<open>undefined\<close> or \<open>null\<close> throws\<close>
  "get_prop (JObject ps) name = Inr (case map_of ps name of None \<Rightarrow> JUndefined | Some v \<Rightarrow> v)"
| "get_prop JUndefined name = Inl TypeError"
| "get_prop JNull name = Inl TypeError"
| "get_prop v name = Inr JUndefined"

function decimal :: "nat \<Rightarrow> string" where
  "decimal n =
     (if n < 10 then [char_of (48 + n)] else decimal (n div 10) @ [char_of (48 + n mod 10)])"
  by pat_completeness auto
termination
  by (relation "measure id") auto

fun template_string :: "js_value \<Rightarrow> string" where
  \<comment> \<open>the conversion \<open>${v}\<close> of a template literal; an object is a plain one\<close>
  "template_string JUndefined = ''undefined''"
| "template_string JNull = ''null''"
| "template_string (JBoolean b) = (if b then ''true'' else ''false'')"
| "template_string (JNumber n) = (if n < 0 then CHR ''-'' # decimal (nat (- n)) else decimal (nat n))"
| "template_string (JString s) = s"
| "template_string (JObject ps) = ''[object Object]''"

subsection \<open>The resolved configuration\<close>

record fs_options =
  strict :: bool
  allow :: "string list"

record server_options =
  fs :: fs_options

text \<open>
  A regular expression of an alias rule is used through \<open>find.test(s)\<close> and
  \<open>s.replace(find, replacement)\<close> only, so it is the pair of these two functions.
\<close>

datatype regexp = RegExp "string \<Rightarrow> bool" "string \<Rightarrow> string \<Rightarrow> string"

fun regexp_test :: "regexp \<Rightarrow> string \<Rightarrow> bool" where
  "regexp_test (RegExp t r) s = t s"

fun regexp_replace :: "regexp \<Rightarrow> string \<Rightarrow> string \<Rightarrow> string" where
  "regexp_replace (RegExp t r) s replacement = r s replacement"

datatype alias_find = FindString string | FindRegExp regexp

record alias_rule =
  find_pattern :: alias_find
  replacement :: string

record resolve_options =
  aliases :: "alias_rule list"

record resolved_config =
  root :: string
  publicDir :: string
  server :: server_options
  resolve :: resolve_options
  fsDenyGlob :: "string \<Rightarrow> bool"
  safeModulePaths :: "string set"

record vite_dev_server =
  config :: resolved_config

subsection \<open>URL objects\<close>

record url =
  url_origin :: string
  url_pathname :: string
  url_query :: "string option"
  url_fragment :: "string option"

definition url_href :: "url \<Rightarrow> string" where
  "url_href u =
     url_origin u @ url_pathname u
       @ (case url_query u of None \<Rightarrow> [] | Some q \<Rightarrow> CHR ''?'' # q)
       @ (case url_fragment u of None \<Rightarrow> [] | Some f \<Rightarrow> CHR ''#'' # f)"

subsection \<open>What static.ts imports\<close>

text \<open>
  The helpers of \<open>utils\<close> and \<open>shared/utils\<close>, the platform's \<open>node:path\<close> and \<open>URL\<close>, and
  the file system are parameters of the model: every function of static.ts takes them as
  its first argument.
\<close>

record env =
  isWindows :: bool
  cleanUrl :: "string \<Rightarrow> string"
  slash :: "string \<Rightarrow> string"
  normalizePath :: "string \<Rightarrow> string"
  fsPathFromUrl :: "string \<Rightarrow> string"
  isSameFilePath :: "string \<Rightarrow> string \<Rightarrow> bool"
  isParentDirectory :: "string \<Rightarrow> string \<Rightarrow> bool"
  isFileReadable :: "string \<Rightarrow> bool"
  isImportRequest :: "string \<Rightarrow> bool"
  isInternalRequest :: "string \<Rightarrow> bool"
  urlRE_test :: "string \<Rightarrow> bool"
  path_resolve :: "string \<Rightarrow> string \<Rightarrow> string"
  path_extname :: "string \<Rightarrow> string"
  URL_new :: "string \<Rightarrow> js_error + url"
  URL_set_pathname :: "url \<Rightarrow> string \<Rightarrow> url"

definition FS_PREFIX :: string where
  \<comment> \<open>Modelled from the spec: the constant is not in static.ts; the escape-hatch
      scenario of the spec requests \<open>/@fs/home/user/linked-pkg/index.js\<close>.\<close>
  "FS_PREFIX = ''/@fs/''"

definition withTrailingSlash :: "string \<Rightarrow> string" where
  \<comment> \<open>Modelled from the spec: the helper is not in static.ts; the separator-terminated
      form of a path.\<close>
  "withTrailingSlash p = (if p \<noteq> [] \<and> last p = CHR ''/'' then p else p @ ''/'')"

definition removeLeadingSlash :: "string \<Rightarrow> string" where
  \<comment> \<open>Modelled from the spec: the helper is not in static.ts; a path with any leading
      separator removed.\<close>
  "removeLeadingSlash s = (case s of [] \<Rightarrow> [] | c # cs \<Rightarrow> if c = CHR ''/'' then cs else s)"

definition ERR_DENIED_FILE :: string where
  "ERR_DENIED_FILE = ''ERR_DENIED_FILE''"

subsection \<open>The policy engine\<close>

fun some :: "('a \<Rightarrow> bool) \<Rightarrow> 'a list \<Rightarrow> bool" where
  \<comment> \<open>\<open>Array.prototype.some\<close>: stops at the first hit\<close>
  "some f [] = False"
| "some f (x # xs) = (if f x then True else some f xs)"

definition isFileInTargetPath :: "env \<Rightarrow> string \<Rightarrow> string \<Rightarrow> bool" where
  "isFileInTargetPath e targetPath filePath =
     (isSameFilePath e targetPath filePath \<or> isParentDirectory e targetPath filePath)"

definition isFileLoadingAllowed :: "env \<Rightarrow> resolved_config \<Rightarrow> string \<Rightarrow> bool" where
  "isFileLoadingAllowed e cfg filePath =
     (if \<not> strict (fs (server cfg)) then True
      else if fsDenyGlob cfg filePath then False
      else if filePath \<in> safeModulePaths cfg then True
      else if some (\<lambda>uri. isFileInTargetPath e uri filePath) (allow (fs (server cfg))) then True
      else False)"

datatype access = Allowed | Denied | Fallback

definition checkLoadingAccess :: "env \<Rightarrow> resolved_config \<Rightarrow> string \<Rightarrow> access" where
  "checkLoadingAccess e cfg path =
     (if isFileLoadingAllowed e cfg (slash e path) then Allowed
      else if isFileReadable e path then Denied
      else Fallback)"

text \<open>
  \<open>isFileServingAllowed\<close> has two call shapes and tells them apart at run time by
  \<open>typeof urlOrServer === 'string'\<close>. The two arguments are the unions the implementation
  signature declares. The two shapes no overload admits fail as JavaScript does: a string
  in the place of the config has no \<open>server\<close> property, and a config in the place of the
  URL is no string for \<open>fsPathFromUrl\<close>.
\<close>

datatype config_or_url = IsConfig resolved_config | IsUrl string

datatype url_or_server = IsString string | IsServer vite_dev_server

fun isFileServingAllowed :: "env \<Rightarrow> config_or_url \<Rightarrow> url_or_server \<Rightarrow> js_error + bool" where
  "isFileServingAllowed e (IsConfig cfg) (IsString u) =
     (if \<not> strict (fs (server cfg)) then Inr True
      else Inr (isFileLoadingAllowed e cfg (fsPathFromUrl e u)))"
| "isFileServingAllowed e (IsUrl u) (IsServer srv) =
     (if \<not> strict (fs (server (config srv))) then Inr True
      else Inr (isFileLoadingAllowed e (config srv) (fsPathFromUrl e u)))"
| "isFileServingAllowed e (IsUrl u) (IsString u') = Inl TypeError"
| "isFileServingAllowed e (IsConfig cfg) (IsServer srv) =
     (if \<not> strict (fs (server (config srv))) then Inr True else Inl TypeError)"

subsection \<open>decodeURI and encodeURI\<close>

definition hex_digit :: "char \<Rightarrow> nat option" where
  "hex_digit c =
     (let n = (of_char c :: nat) in
      if 48 \<le> n \<and> n \<le> 57 then Some (n - 48)
      else if 65 \<le> n \<and> n \<le> 70 then Some (n - 55)
      else if 97 \<le> n \<and> n \<le> 102 then Some (n - 87)
      else None)"

definition upper_hex :: "nat \<Rightarrow> char" where
  "upper_hex n = (if n < 10 then char_of (48 + n) else char_of (55 + n))"

definition percent_encode :: "char \<Rightarrow> string" where
  "percent_encode c =
     [CHR ''%'', upper_hex ((of_char c :: nat) div 16), upper_hex ((of_char c :: nat) mod 16)]"

datatype uri_token = Chr char | Esc char char

fun esc_byte :: "uri_token \<Rightarrow> nat option" where
  "esc_byte (Chr c) = None"
| "esc_byte (Esc h l) =
     (case (hex_digit h, hex_digit l) of (Some a, Some b) \<Rightarrow> Some (16 * a + b) | _ \<Rightarrow> None)"

fun uri_tokens :: "string \<Rightarrow> uri_token list option" where
  \<comment> \<open>\<open>None\<close>: a \<open>%\<close> that two hexadecimal digits do not follow\<close>
  "uri_tokens [] = Some []"
| "uri_tokens (c # cs) =
     (if c = CHR ''%'' then
        (case cs of
           h # l # rest \<Rightarrow>
             (if hex_digit h \<noteq> None \<and> hex_digit l \<noteq> None
              then map_option ((#) (Esc h l)) (uri_tokens rest) else None)
         | _ \<Rightarrow> None)
      else map_option ((#) (Chr c)) (uri_tokens cs))"

definition utf8_length :: "nat \<Rightarrow> nat" where
  \<comment> \<open>the number of leading one bits of an octet\<close>
  "utf8_length b =
     (if b < 128 then 0 else if b < 192 then 1 else if b < 224 then 2
      else if b < 240 then 3 else if b < 248 then 4 else 5)"

fun valid_utf8 :: "nat list \<Rightarrow> bool" where
  \<comment> \<open>the well-formed UTF-8 encodings of one code point\<close>
  "valid_utf8 [a, b] = (194 \<le> a \<and> a \<le> 223 \<and> 128 \<le> b \<and> b \<le> 191)"
| "valid_utf8 [a, b, c] =
     (128 \<le> c \<and> c \<le> 191 \<and>
      (if a = 224 then 160 \<le> b \<and> b \<le> 191
       else if a = 237 then 128 \<le> b \<and> b \<le> 159
       else 225 \<le> a \<and> a \<le> 239 \<and> 128 \<le> b \<and> b \<le> 191))"
| "valid_utf8 [a, b, c, d] =
     (128 \<le> c \<and> c \<le> 191 \<and> 128 \<le> d \<and> d \<le> 191 \<and>
      (if a = 240 then 144 \<le> b \<and> b \<le> 191
       else if a = 244 then 128 \<le> b \<and> b \<le> 143
       else 241 \<le> a \<and> a \<le> 243 \<and> 128 \<le> b \<and> b \<le> 191))"
| "valid_utf8 bs = False"

definition uriReserved_and_hash :: string where
  "uriReserved_and_hash = '';/?:@&=+$,#''"

fun decode_tokens :: "uri_token list \<Rightarrow> string option" where
  "decode_tokens [] = Some []"
| "decode_tokens (Chr c # ts) = map_option ((#) c) (decode_tokens ts)"
| "decode_tokens (Esc h l # ts) =
     (case esc_byte (Esc h l) of
        None \<Rightarrow> None
      | Some b \<Rightarrow>
          (let n = utf8_length b in
           if n = 0 then
             (if char_of b \<in> set uriReserved_and_hash
              then map_option ((@) [CHR ''%'', h, l]) (decode_tokens ts)
              else map_option ((#) (char_of b)) (decode_tokens ts))
           else if n = 1 \<or> n > 4 then None
           else
             (let more = map esc_byte (take (n - 1) ts) in
              if length more = n - 1 \<and> None \<notin> set more \<and> valid_utf8 (b # map the more)
              then map_option ((@) (map char_of (b # map the more))) (decode_tokens (drop (n - 1) ts))
              else None)))"

definition decodeURI :: "string \<Rightarrow> string option" where
  \<comment> \<open>\<open>None\<close> is the \<open>URIError\<close> that \<open>decodeURI\<close> throws\<close>
  "decodeURI s = (case uri_tokens s of None \<Rightarrow> None | Some ts \<Rightarrow> decode_tokens ts)"

definition uriUnescaped :: string where
  \<comment> \<open>what \<open>encodeURI\<close> leaves as it is: the reserved characters, \<open>#\<close>, letters, digits and marks\<close>
  "uriUnescaped =
     uriReserved_and_hash
       @ ''ABCDEFGHIJKLMNOPQRSTUVWXYZabcdefghijklmnopqrstuvwxyz0123456789-_.!~*()''
       @ [CHR 0x27]"

definition encodeURI :: "string \<Rightarrow> string" where
  "encodeURI s = concat (map (\<lambda>c. if c \<in> set uriUnescaped then [c] else percent_encode c) s)"

subsection \<open>The denial response\<close>

text \<open>
  The response object and the logger are the state a middleware writes: the status code,
  the body written so far, whether the response was ended, and the logger's calls.
\<close>

datatype log_entry = LogError string | LogWarnOnce string

record io_state =
  statusCode :: nat
  written :: string
  ended :: bool
  logged :: "log_entry list"

definition join_with :: "string \<Rightarrow> string list \<Rightarrow> string" where
  \<comment> \<open>\<open>Array.prototype.join\<close>\<close>
  "join_with sep xs = (case xs of [] \<Rightarrow> [] | y # ys \<Rightarrow> y @ concat (map ((@) sep) ys))"

definition join_lines :: "string list \<Rightarrow> string" where
  \<comment> \<open>\<open>xs.join('\n')\<close>\<close>
  "join_lines xs = join_with [CHR 0x0A] xs"

definition escapeHtml :: "string \<Rightarrow> string" where
  \<comment> \<open>the package escape-html: the five characters it replaces by entities\<close>
  "escapeHtml s =
     concat (map (\<lambda>c. if c = CHR 0x22 then ''&quot;''
                       else if c = CHR ''&'' then ''&amp;''
                       else if c = CHR 0x27 then ''&#39;''
                       else if c = CHR ''<'' then ''&lt;''
                       else if c = CHR ''>'' then ''&gt;''
                       else [c]) s)"

definition replace_newlines :: "string \<Rightarrow> string" where
  \<comment> \<open>\<open>s.replace(/\n/g, '<br/>')\<close>\<close>
  "replace_newlines s = concat (map (\<lambda>c. if c = CHR 0x0A then ''<br/>'' else [c]) s)"

definition html_before :: string where
  "html_before = ''\<newline>    <body>\<newline>      <h1>403 Restricted</h1>\<newline>      <p>''"

definition html_after :: string where
  "html_after =
     ''</p>\<newline>      <style>\<newline>        body {\<newline>          padding: 1em 2em;\<newline>        }\<newline>      </style>\<newline>    </body>\<newline>  ''"

definition renderRestrictedErrorHTML :: "string \<Rightarrow> string" where
  "renderRestrictedErrorHTML msg = html_before @ replace_newlines (escapeHtml msg) @ html_after"

definition urlMessage :: "string \<Rightarrow> string" where
  "urlMessage ident =
     ''The request id '' @ [CHR 0x22] @ ident @ [CHR 0x22] @ '' is outside of Vite serving allow list.''"

definition hintMessage :: "vite_dev_server \<Rightarrow> string" where
  "hintMessage srv =
     [CHR 0x0A] @ join_lines (map (\<lambda>i. ''- '' @ i) (allow (fs (server (config srv)))))
       @ [CHR 0x0A, CHR 0x0A]
       @ ''Refer to docs https://vite.dev/config/server-options.html#server-fs-allow for configurations and more details.''"

definition respondWithAccessDenied :: "string \<Rightarrow> vite_dev_server \<Rightarrow> io_state \<Rightarrow> io_state" where
  "respondWithAccessDenied ident srv st =
     st\<lparr>logged := logged st @ [LogError (urlMessage ident), LogWarnOnce (hintMessage srv @ [CHR 0x0A])],
        statusCode := 403,
        written := written st @ renderRestrictedErrorHTML (urlMessage ident @ [CHR 0x0A] @ hintMessage srv),
        ended := True\<rparr>"

subsection \<open>The static file server and its options\<close>

text \<open>
  \<open>sirv(dir, options)\<close> is the collaborator: for a request URL it throws, or it finishes
  with a result of its own (a file sent, or the next handler called). Of its options the
  model keeps \<open>shouldServe\<close>; \<open>dev\<close>, \<open>etag\<close>, \<open>extensions\<close> and \<open>setHeaders\<close> do not bear on
  the access decision.
\<close>

record sirv_options =
  shouldServe :: "(string \<Rightarrow> js_error + bool) option"

type_synonym 'r sirv = "string \<Rightarrow> sirv_options \<Rightarrow> string \<Rightarrow> js_error + 'r"

definition denied_error :: "string \<Rightarrow> js_error" where
  "denied_error filePath =
     JObject [(''message'', JString ''denied access''), (''code'', JString ERR_DENIED_FILE),
              (''path'', JString filePath)]"

definition sirvOptions :: "env \<Rightarrow> resolved_config \<Rightarrow> bool \<Rightarrow> sirv_options" where
  "sirvOptions e cfg disableFsServeCheck =
     \<lparr>shouldServe =
        (if disableFsServeCheck then None
         else Some (\<lambda>filePath.
                (case checkLoadingAccess e cfg filePath of
                   Denied \<Rightarrow> Inl (denied_error filePath)
                 | Fallback \<Rightarrow> Inr False
                 | Allowed \<Rightarrow> Inr True)))\<rparr>"

subsection \<open>The three middlewares\<close>

text \<open>
  What one call of a middleware does: it calls \<open>next()\<close> itself, or it hands the request
  (with the URL it then has) to the collaborator, which finishes; or it answers 403; or a
  fault leaves it.
\<close>

datatype 'r outcome = Next | Served string 'r | AccessDenied io_state | Raised js_error

definition toFilePath :: "env \<Rightarrow> string \<Rightarrow> string" where
  "toFilePath e u =
     (let filePath = cleanUrl e u
      in normalizePath e
           (if CHR ''%'' \<in> set filePath
            then (case decodeURI filePath of Some d \<Rightarrow> d | None \<Rightarrow> filePath)
            else filePath))"

definition viteServePublicMiddleware ::
  "env \<Rightarrow> 'r sirv \<Rightarrow> vite_dev_server \<Rightarrow> string set option \<Rightarrow> string \<Rightarrow> 'r outcome" where
  "viteServePublicMiddleware e sirv srv publicFiles req_url =
     (if (case publicFiles of None \<Rightarrow> False | Some files \<Rightarrow> toFilePath e req_url \<notin> files)
         \<or> isImportRequest e req_url \<or> isInternalRequest e req_url \<or> urlRE_test e req_url
      then Next
      else (case sirv (publicDir (config srv)) (sirvOptions e (config srv) True) req_url of
              Inl err \<Rightarrow> Raised err
            | Inr r \<Rightarrow> Served req_url r))"

fun substitution :: "string \<Rightarrow> string \<Rightarrow> string \<Rightarrow> string \<Rightarrow> string" where
  \<comment> \<open>the replacement text of \<open>String.prototype.replace\<close> for a string pattern: the matched
      text, what precedes it, what follows it, the template\<close>
  "substitution m pre post (c # d # cs) =
     (if c = CHR ''$'' then
        (if d = CHR ''$'' then CHR ''$'' # substitution m pre post cs
         else if d = CHR ''&'' then m @ substitution m pre post cs
         else if d = CHR 0x60 then pre @ substitution m pre post cs
         else if d = CHR 0x27 then post @ substitution m pre post cs
         else c # substitution m pre post (d # cs))
      else c # substitution m pre post (d # cs))"
| "substitution m pre post cs = cs"

fun split_first :: "string \<Rightarrow> string \<Rightarrow> (string \<times> string) option" where
  \<comment> \<open>the text before and after the first occurrence of the pattern\<close>
  "split_first pat [] = (if pat = [] then Some ([], []) else None)"
| "split_first pat (c # cs) =
     (if prefix pat (c # cs) then Some ([], drop (length pat) (c # cs))
      else map_option (\<lambda>(pre, post). (c # pre, post)) (split_first pat cs))"

definition string_replace :: "string \<Rightarrow> string \<Rightarrow> string \<Rightarrow> string" where
  \<comment> \<open>\<open>s.replace(pat, replacement)\<close> for a string pattern: the first occurrence only\<close>
  "string_replace s pat repl =
     (case split_first pat s of
        None \<Rightarrow> s
      | Some (pre, post) \<Rightarrow> pre @ substitution pat pre post repl @ post)"

definition alias_matches :: "alias_rule \<Rightarrow> string \<Rightarrow> bool" where
  "alias_matches a pathname =
     (case find_pattern a of
        FindString f \<Rightarrow> prefix f pathname
      | FindRegExp re \<Rightarrow> regexp_test re pathname)"

definition alias_replace :: "alias_rule \<Rightarrow> string \<Rightarrow> string" where
  "alias_replace a pathname =
     (case find_pattern a of
        FindString f \<Rightarrow> string_replace pathname f (replacement a)
      | FindRegExp re \<Rightarrow> regexp_replace re pathname (replacement a))"

fun alias_loop :: "string \<Rightarrow> alias_rule list \<Rightarrow> string option" where
  \<comment> \<open>the \<open>for\<close> loop over \<open>resolve.alias\<close> with its \<open>break\<close>; \<open>None\<close> is \<open>undefined\<close>\<close>
  "alias_loop pathname [] = None"
| "alias_loop pathname (a # rest) =
     (if alias_matches a pathname then Some (alias_replace a pathname)
      else alias_loop pathname rest)"

definition truthy_string :: "string option \<Rightarrow> bool" where
  \<comment> \<open>\<open>undefined\<close> and the empty string are falsy\<close>
  "truthy_string v = (case v of None \<Rightarrow> False | Some s \<Rightarrow> s \<noteq> [])"

definition redirectedPathname :: "string \<Rightarrow> alias_rule list \<Rightarrow> string \<Rightarrow> string option" where
  \<comment> \<open>lines 157-173; \<open>slice(dir.length)\<close> cuts \<open>dir\<close> off, with which the string starts\<close>
  "redirectedPathname dir rules pathname =
     (case alias_loop pathname rules of
        None \<Rightarrow> None
      | Some r \<Rightarrow>
          if truthy_string (Some r) \<and> prefix (withTrailingSlash dir) r
          then Some (drop (length dir) r) else Some r)"

definition resolvedPathname :: "string \<Rightarrow> alias_rule list \<Rightarrow> string \<Rightarrow> string" where
  \<comment> \<open>\<open>redirectedPathname || pathname\<close>\<close>
  "resolvedPathname dir rules pathname =
     (case redirectedPathname dir rules pathname of
        None \<Rightarrow> pathname
      | Some r \<Rightarrow> if truthy_string (Some r) then r else pathname)"

definition fileUrl :: "env \<Rightarrow> string \<Rightarrow> alias_rule list \<Rightarrow> string \<Rightarrow> string" where
  "fileUrl e dir rules pathname =
     (let resolved = resolvedPathname dir rules pathname;
          f = path_resolve e dir (removeLeadingSlash resolved)
      in if suffix ''/'' resolved \<and> \<not> suffix ''/'' f then withTrailingSlash f else f)"

definition rewritten_url :: "env \<Rightarrow> url \<Rightarrow> string \<Rightarrow> string" where
  \<comment> \<open>\<open>url.pathname = encodeURI(p); req.url = url.href.slice(url.origin.length)\<close>\<close>
  "rewritten_url e u p =
     (let u' = URL_set_pathname e u (encodeURI p) in drop (length (url_origin u')) (url_href u'))"

definition is_denied_file :: "js_error \<Rightarrow> js_error + bool" where
  \<comment> \<open>\<open>e && 'code' in e && e.code === ERR_DENIED_FILE\<close>, from left to right; the test
      itself throws when \<open>in\<close> does\<close>
  "is_denied_file err =
     (if \<not> truthy err then Inr False
      else (case has_prop ''code'' err of
              Inl thrown \<Rightarrow> Inl thrown
            | Inr present \<Rightarrow>
                if \<not> present then Inr False
                else (case get_prop err ''code'' of
                        Inl thrown \<Rightarrow> Inl thrown
                      | Inr v \<Rightarrow> Inr (v = JString ERR_DENIED_FILE))))"

definition catch_block :: "vite_dev_server \<Rightarrow> io_state \<Rightarrow> js_error \<Rightarrow> 'r outcome" where
  \<comment> \<open>the \<open>catch (e)\<close> block, the same text in the root stage (lines 187-193) and in the
      raw-fs stage (lines 224-230)\<close>
  "catch_block srv st err =
     (case is_denied_file err of
        Inl thrown \<Rightarrow> Raised thrown
      | Inr denied \<Rightarrow>
          if denied then
            (case get_prop err ''path'' of
               Inl thrown \<Rightarrow> Raised thrown
             | Inr ident \<Rightarrow> AccessDenied (respondWithAccessDenied (template_string ident) srv st))
          else Raised err)"

definition static_request :: "env \<Rightarrow> vite_dev_server \<Rightarrow> string \<Rightarrow> js_error + string option" where
  \<comment> \<open>\<open>viteServeStaticMiddleware\<close> up to its \<open>try\<close>: a fault thrown, or \<open>None\<close> when it
      returned \<open>next()\<close>, or \<open>req.url\<close> as the \<open>try\<close> block finds it; \<open>fileUrl\<close> is computed
      and, as in the source, not used\<close>
  "static_request e srv req_url =
     (let dir = root (config srv); cleanedUrl = cleanUrl e req_url
      in if suffix ''/'' cleanedUrl \<or> path_extname e cleanedUrl = ''.html''
            \<or> isInternalRequest e req_url \<or> prefix ''//'' req_url
         then Inr None
         else
           (case URL_new e req_url of
              Inl err \<Rightarrow> Inl err
            | Inr u \<Rightarrow>
                (case decodeURI (url_pathname u) of
                   None \<Rightarrow> Inl URIError
                 | Some pathname \<Rightarrow>
                     (let rules = aliases (resolve (config srv));
                          redirected = redirectedPathname dir rules pathname;
                          file = fileUrl e dir rules pathname
                      in if truthy_string redirected
                         then Inr (Some (rewritten_url e u (case redirected of Some r \<Rightarrow> r | None \<Rightarrow> [])))
                         else Inr (Some req_url)))))"

definition viteServeStaticMiddleware ::
  "env \<Rightarrow> 'r sirv \<Rightarrow> vite_dev_server \<Rightarrow> io_state \<Rightarrow> string \<Rightarrow> 'r outcome" where
  "viteServeStaticMiddleware e sirv srv st req_url =
     (case static_request e srv req_url of
        Inl err \<Rightarrow> Raised err
      | Inr None \<Rightarrow> Next
      | Inr (Some req_url') \<Rightarrow>
          (case sirv (root (config srv)) (sirvOptions e (config srv) False) req_url' of
             Inr r \<Rightarrow> Served req_url' r
           | Inl err \<Rightarrow> catch_block srv st err))"

definition lower_ascii :: "char \<Rightarrow> char" where
  \<comment> \<open>the lower-case form of an ASCII letter, for matching without regard to case\<close>
  "lower_ascii c =
     (if 65 \<le> (of_char c :: nat) \<and> (of_char c :: nat) \<le> 90 then char_of ((of_char c :: nat) + 32) else c)"

definition strip_drive :: "string \<Rightarrow> string" where
  \<comment> \<open>\<open>s.replace(/^[A-Z]:/i, '')\<close>\<close>
  "strip_drive s =
     (case s of
        c # d # rest \<Rightarrow>
          if lower_ascii c \<in> set ''abcdefghijklmnopqrstuvwxyz'' \<and> d = CHR '':'' then rest else s
      | _ \<Rightarrow> s)"

fun slice_units :: "nat \<Rightarrow> string \<Rightarrow> string option" where
  \<comment> \<open>\<open>s.slice(n)\<close>: JavaScript counts UTF-16 code units, of which a character of four
      UTF-8 bytes has two and every other character one. \<open>None\<close>: the cut falls between the
      two units of one character, and what is left starts with a lone surrogate\<close>
  "slice_units 0 s = Some s"
| "slice_units (Suc n) [] = Some []"
| "slice_units (Suc n) (a # s) =
     (let w = utf8_length (of_char a)
      in if w = 4 then (case n of 0 \<Rightarrow> None | Suc m \<Rightarrow> slice_units m (drop 3 s))
         else if w = 2 \<or> w = 3 then slice_units n (drop (w - 1) s)
         else slice_units n s)"

definition raw_fs_request :: "env \<Rightarrow> string \<Rightarrow> js_error + string option" where
  \<comment> \<open>\<open>viteServeRawFsMiddleware\<close> up to its \<open>try\<close>: a fault thrown, or \<open>None\<close> when it
      called \<open>next()\<close>, or \<open>req.url\<close> as the \<open>try\<close> block finds it. \<open>encodeURI\<close> throws a
      \<open>URIError\<close> on a string with a lone surrogate\<close>
  "raw_fs_request e req_url =
     (if prefix FS_PREFIX req_url then
        (case URL_new e req_url of
           Inl err \<Rightarrow> Inl err
         | Inr u \<Rightarrow>
             (case decodeURI (url_pathname u) of
                None \<Rightarrow> Inl URIError
              | Some pathname \<Rightarrow>
                  (case slice_units (length FS_PREFIX) pathname of
                     None \<Rightarrow> Inl URIError
                   | Some newPathname \<Rightarrow>
                       (let newPathname' =
                              (if isWindows e then strip_drive newPathname else newPathname)
                        in Inr (Some (rewritten_url e u newPathname'))))))
      else Inr None)"

definition viteServeRawFsMiddleware ::
  "env \<Rightarrow> 'r sirv \<Rightarrow> vite_dev_server \<Rightarrow> io_state \<Rightarrow> string \<Rightarrow> 'r outcome" where
  "viteServeRawFsMiddleware e sirv srv st req_url =
     (case raw_fs_request e req_url of
        Inl err \<Rightarrow> Raised err
      | Inr None \<Rightarrow> Next
      | Inr (Some req_url') \<Rightarrow>
          (case sirv ''/'' (sirvOptions e (config srv) False) req_url' of
             Inr r \<Rightarrow> Served req_url' r
           | Inl err \<Rightarrow> catch_block srv st err))"

section \<open>The platform and the helpers, for evaluation\<close>

text \<open>
  The theorems below hold for every \<^typ>\<open>env\<close> unless they say otherwise. To evaluate the
  middlewares on concrete requests, this section gives one environment: the URL parser
  on request targets, POSIX \<open>node:path\<close>, the helpers as the spec describes them, and a
  static file server.
\<close>

subsection \<open>The URL parser on request targets\<close>

text \<open>
  \<open>new URL(input, 'http://example.com')\<close> as the URL standard parses a request target in
  origin form (a path that starts with one slash, then a query and a fragment if any) or
  any other relative reference without authority against this base: the path up to the
  first \<open>?\<close> or \<open>#\<close> is cut into segments at \<open>/\<close> and \<open>\\<close>, dot segments are resolved, and
  the characters of the path percent-encode set are encoded.

  Two kinds of input are outside this model, and no statement below evaluates the parser
  on them: a target with a scheme of its own (absolute form, \<open>http://host/path\<close>) and a
  target that starts with two separators (\<open>//host/path\<close>), whose host the standard goes
  on to parse. For these \<open>new URL\<close> may well succeed; \<^term>\<open>whatwg_URL_new\<close> gives them
  the result of an invalid URL, which is not a statement about the platform. The root
  stage returns before it parses a target that starts with \<open>//\<close>, and the raw-fs stage
  only parses targets that start with \<open>/@fs/\<close>.
\<close>

definition c0_or_space :: "char \<Rightarrow> bool" where
  "c0_or_space c = ((of_char c :: nat) \<le> 32)"

definition tab_or_newline :: "char \<Rightarrow> bool" where
  "tab_or_newline c = (c = CHR 0x09 \<or> c = CHR 0x0A \<or> c = CHR 0x0D)"

definition is_separator :: "char \<Rightarrow> bool" where
  "is_separator c = (c = CHR ''/'' \<or> c = CHR 0x5C)"

definition c0_control_set :: "char \<Rightarrow> bool" where
  "c0_control_set c = ((of_char c :: nat) < 32 \<or> (of_char c :: nat) > 126)"

definition fragment_set :: "char \<Rightarrow> bool" where
  "fragment_set c = (c0_control_set c \<or> c \<in> set [CHR '' '', CHR 0x22, CHR ''<'', CHR ''>'', CHR 0x60])"

definition query_set :: "char \<Rightarrow> bool" where
  "query_set c = (c0_control_set c \<or> c \<in> set [CHR '' '', CHR 0x22, CHR ''#'', CHR ''<'', CHR ''>''])"

definition special_query_set :: "char \<Rightarrow> bool" where
  "special_query_set c = (query_set c \<or> c = CHR 0x27)"

definition path_set :: "char \<Rightarrow> bool" where
  "path_set c = (query_set c \<or> c \<in> set [CHR ''?'', CHR ''^'', CHR 0x60, CHR ''{'', CHR ''}''])"

definition encode_with :: "(char \<Rightarrow> bool) \<Rightarrow> string \<Rightarrow> string" where
  "encode_with in_set s = concat (map (\<lambda>c. if in_set c then percent_encode c else [c]) s)"

fun split_on :: "(char \<Rightarrow> bool) \<Rightarrow> string \<Rightarrow> string list" where
  "split_on sep [] = [[]]"
| "split_on sep (c # cs) =
     (if sep c then [] # split_on sep cs
      else (case split_on sep cs of [] \<Rightarrow> [[c]] | s # ss \<Rightarrow> (c # s) # ss))"

definition single_dot :: "string \<Rightarrow> bool" where
  "single_dot s = (map lower_ascii s \<in> set [''.'', ''%2e''])"

definition double_dot :: "string \<Rightarrow> bool" where
  "double_dot s = (map lower_ascii s \<in> set [''..'', ''.%2e'', ''%2e.'', ''%2e%2e''])"

fun path_state :: "string list \<Rightarrow> string list \<Rightarrow> string list" where
  \<comment> \<open>the path so far, the segments still to read\<close>
  "path_state acc [] = acc"
| "path_state acc (s # ss) =
     (if double_dot s then path_state (butlast acc @ (if ss = [] then [[]] else [])) ss
      else if single_dot s then path_state (acc @ (if ss = [] then [[]] else [])) ss
      else path_state (acc @ [encode_with path_set s]) ss)"

definition serialize_path :: "string list \<Rightarrow> string" where
  "serialize_path segs = concat (map ((#) CHR ''/'') segs)"

definition parse_path :: "string \<Rightarrow> string" where
  "parse_path s = serialize_path (path_state [] (split_on is_separator s))"

definition has_scheme :: "string \<Rightarrow> bool" where
  "has_scheme s =
     (case dropWhile (\<lambda>c. lower_ascii c \<in> set ''abcdefghijklmnopqrstuvwxyz0123456789+-.'') s of
        [] \<Rightarrow> False
      | c # cs \<Rightarrow> c = CHR '':'' \<and> s \<noteq> [] \<and> lower_ascii (hd s) \<in> set ''abcdefghijklmnopqrstuvwxyz'')"

definition parse_query_fragment :: "string \<Rightarrow> string option \<times> string option" where
  \<comment> \<open>what follows the path: empty, or \<open>?query\<close>, \<open>#fragment\<close>, or both\<close>
  "parse_query_fragment s =
     (case s of
        [] \<Rightarrow> (None, None)
      | c # cs \<Rightarrow>
          if c = CHR ''#'' then (None, Some (encode_with fragment_set cs))
          else
            (let q = takeWhile (\<lambda>d. d \<noteq> CHR ''#'') cs; r = dropWhile (\<lambda>d. d \<noteq> CHR ''#'') cs
             in (Some (encode_with special_query_set q),
                 (case r of [] \<Rightarrow> None | d # f \<Rightarrow> Some (encode_with fragment_set f)))))"

definition example_com :: string where
  "example_com = ''http://example.com''"

definition whatwg_URL_new :: "string \<Rightarrow> js_error + url" where
  "whatwg_URL_new input =
     (let s = filter (\<lambda>c. \<not> tab_or_newline c)
                (rev (dropWhile c0_or_space (rev (dropWhile c0_or_space input))));
          pth = takeWhile (\<lambda>c. c \<noteq> CHR ''?'' \<and> c \<noteq> CHR ''#'') s;
          rest = dropWhile (\<lambda>c. c \<noteq> CHR ''?'' \<and> c \<noteq> CHR ''#'') s;
          qf = parse_query_fragment rest
      in if has_scheme s then Inl TypeError
         else (case pth of
                 c # d # cs \<Rightarrow>
                   if is_separator c \<and> is_separator d then Inl TypeError
                   else Inr \<lparr>url_origin = example_com,
                             url_pathname = parse_path (if is_separator c then d # cs else pth),
                             url_query = fst qf, url_fragment = snd qf\<rparr>
               | [c] \<Rightarrow>
                   Inr \<lparr>url_origin = example_com,
                        url_pathname = parse_path (if is_separator c then [] else pth),
                        url_query = fst qf, url_fragment = snd qf\<rparr>
               | [] \<Rightarrow>
                   Inr \<lparr>url_origin = example_com, url_pathname = ''/'',
                        url_query = fst qf, url_fragment = snd qf\<rparr>))"

definition whatwg_URL_set_pathname :: "url \<Rightarrow> string \<Rightarrow> url" where
  \<comment> \<open>the \<open>pathname\<close> setter: here \<open>?\<close> and \<open>#\<close> do not end the path, they are encoded\<close>
  "whatwg_URL_set_pathname u v =
     (let s = filter (\<lambda>c. \<not> tab_or_newline c) v
      in u\<lparr>url_pathname :=
             parse_path (case s of [] \<Rightarrow> [] | c # cs \<Rightarrow> if is_separator c then cs else s)\<rparr>)"

subsection \<open>POSIX node:path\<close>

fun normalize_segments :: "bool \<Rightarrow> string list \<Rightarrow> string list \<Rightarrow> string list" where
  \<comment> \<open>whether \<open>..\<close> may climb above the start, the segments so far, the segments to read\<close>
  "normalize_segments up acc [] = acc"
| "normalize_segments up acc (s # ss) =
     (if s = [] \<or> s = ''.'' then normalize_segments up acc ss
      else if s = ''..'' then
        (if acc \<noteq> [] \<and> last acc \<noteq> ''..'' then normalize_segments up (butlast acc) ss
         else if up then normalize_segments up (acc @ [''..'']) ss
         else normalize_segments up acc ss)
      else normalize_segments up (acc @ [s]) ss)"

definition posix_normalize :: "string \<Rightarrow> string" where
  "posix_normalize p =
     (if p = [] then ''.''
      else
        (let absolute = (hd p = CHR ''/''); trailing = (last p = CHR ''/'');
             body = join_with ''/'' (normalize_segments (\<not> absolute) [] (split_on (\<lambda>c. c = CHR ''/'') p))
         in if body = [] then (if absolute then ''/'' else if trailing then ''./'' else ''.'')
            else (if absolute then ''/'' else []) @ body @ (if trailing then ''/'' else [])))"

definition posix_resolve :: "string \<Rightarrow> string \<Rightarrow> string" where
  \<comment> \<open>\<open>path.resolve(dir, rel)\<close> for an absolute \<open>dir\<close>; a relative \<open>dir\<close> is resolved against
      the working directory, taken to be \<open>/\<close>\<close>
  "posix_resolve dir rel =
     (let joined = (if rel \<noteq> [] \<and> hd rel = CHR ''/'' then rel else dir @ ''/'' @ rel)
      in CHR ''/'' # join_with ''/'' (normalize_segments False [] (split_on (\<lambda>c. c = CHR ''/'') joined)))"

definition posix_extname :: "string \<Rightarrow> string" where
  \<comment> \<open>from the last dot of the last segment, unless that dot starts the segment or the
      segment is \<open>..\<close>\<close>
  "posix_extname p =
     (let rbase = takeWhile (\<lambda>c. c \<noteq> CHR ''/'') (dropWhile (\<lambda>c. c = CHR ''/'') (rev p));
          rext = takeWhile (\<lambda>c. c \<noteq> CHR ''.'') rbase
      in if CHR ''.'' \<notin> set rbase \<or> drop (Suc (length rext)) rbase = [] \<or> rbase = ''..'' then []
         else CHR ''.'' # rev rext)"

subsection \<open>The helpers, as the spec has them\<close>

definition cleanUrl_model :: "string \<Rightarrow> string" where
  \<comment> \<open>Modelled from the spec: \<open>cleanUrl\<close> is not in static.ts; it strips any query or
      fragment suffix from the URL.\<close>
  "cleanUrl_model u = takeWhile (\<lambda>c. c \<noteq> CHR ''?'' \<and> c \<noteq> CHR ''#'') u"

definition slash_model :: "string \<Rightarrow> string" where
  \<comment> \<open>Modelled from the spec: \<open>slash\<close> is not in static.ts; it gives the forward-slash
      form of a path, every backslash turned into a slash.\<close>
  "slash_model p = map (\<lambda>c. if c = CHR 0x5C then CHR ''/'' else c) p"

definition normalizePath_model :: "bool \<Rightarrow> string \<Rightarrow> string" where
  \<comment> \<open>Modelled from the spec: \<open>normalizePath\<close> is not in static.ts; the normalized
      forward-slash form of a path (backslashes are separators on Windows only).\<close>
  "normalizePath_model windows p = posix_normalize (if windows then slash_model p else p)"

definition isSameFilePath_model :: "string \<Rightarrow> string \<Rightarrow> bool" where
  \<comment> \<open>Modelled from the spec: \<open>isSameFilePath\<close> is not in static.ts; on a case-sensitive
      file system two normalized paths are the same entry when they are equal.\<close>
  "isSameFilePath_model a b = (a = b)"

definition isParentDirectory_model :: "string \<Rightarrow> string \<Rightarrow> bool" where
  \<comment> \<open>Modelled from the spec: \<open>isParentDirectory\<close> is not in static.ts; the candidate's
      separator-terminated form starts with the target's, and the two differ.\<close>
  "isParentDirectory_model dir file =
     (prefix (withTrailingSlash dir) (withTrailingSlash file) \<and> file \<noteq> dir)"

definition fsPathFromUrl_model :: "bool \<Rightarrow> string \<Rightarrow> string" where
  \<comment> \<open>Modelled from the spec: \<open>fsPathFromUrl\<close> is not in static.ts; the filesystem path a
      URL names: query and fragment stripped, the escape-hatch prefix removed, normalized
      and absolute.\<close>
  "fsPathFromUrl_model windows u =
     (let c = cleanUrl_model u;
          q = normalizePath_model windows (if prefix FS_PREFIX c then drop (length FS_PREFIX) c else c)
      in if q \<noteq> [] \<and> hd q = CHR ''/'' then q else CHR ''/'' # q)"

fun has_query_marker :: "string \<Rightarrow> bool \<Rightarrow> string \<Rightarrow> bool" where
  \<comment> \<open>a query parameter \<open>key\<close> with no value (or, when allowed, an empty one) after \<open>?\<close> or \<open>&\<close>\<close>
  "has_query_marker key eq [] = False"
| "has_query_marker key eq (c # cs) =
     (((c = CHR ''?'' \<or> c = CHR ''&'') \<and> prefix key cs \<and>
       (let r = drop (length key) cs; r' = (if eq \<and> prefix ''='' r then tl r else r)
        in r' = [] \<or> hd r' = CHR ''&''))
      \<or> has_query_marker key eq cs)"

definition isImportRequest_model :: "string \<Rightarrow> bool" where
  \<comment> \<open>Modelled from the spec: \<open>isImportRequest\<close> is not in static.ts; an import request is
      identified by a reserved query marker, taken to be the parameter \<open>import\<close>.\<close>
  "isImportRequest_model u = has_query_marker ''import'' True u"

definition urlRE_model :: "string \<Rightarrow> bool" where
  \<comment> \<open>Modelled from the spec: \<open>urlRE\<close> is not in static.ts; it recognizes a request
      explicitly marked \<open>?url\<close>.\<close>
  "urlRE_model u = has_query_marker ''url'' False u"

definition isInternalRequest_model :: "string \<Rightarrow> bool" where
  \<comment> \<open>Modelled from the spec: \<open>isInternalRequest\<close> is not in static.ts; an internal request
      carries a reserved path prefix, such as \<open>/@fs/\<close> or that of the client.\<close>
  "isInternalRequest_model u =
     some (\<lambda>p. prefix p u) [FS_PREFIX, ''/@id/'', ''/@vite/client'', ''/@vite/env'']"

definition node_env :: "bool \<Rightarrow> string list \<Rightarrow> env" where
  \<comment> \<open>the platform (Windows or not) and the readable files of the disk; \<open>node:path\<close> is
      the POSIX one on both, and no evaluation below calls it on Windows\<close>
  "node_env windows files =
     \<lparr>isWindows = windows,
      cleanUrl = cleanUrl_model,
      slash = slash_model,
      normalizePath = normalizePath_model windows,
      fsPathFromUrl = fsPathFromUrl_model windows,
      isSameFilePath = isSameFilePath_model,
      isParentDirectory = isParentDirectory_model,
      isFileReadable = (\<lambda>p. p \<in> set files),
      isImportRequest = isImportRequest_model,
      isInternalRequest = isInternalRequest_model,
      urlRE_test = urlRE_model,
      path_resolve = posix_resolve,
      path_extname = posix_extname,
      URL_new = whatwg_URL_new,
      URL_set_pathname = whatwg_URL_set_pathname\<rparr>"

subsection \<open>Paths that a URL carries unchanged\<close>

text \<open>
  The raw-fs stage parses the request URL, decodes its path, cuts the prefix off, encodes
  what is left and has the URL parser read it again; the file server decodes once more.
  The paths below are those that come out of all this as they went in.
\<close>

definition url_syntax :: string where
  \<comment> \<open>what the URL parser does not leave in a path: it reads \<open>\\<close> as \<open>/\<close>, ends the
      path at \<open>?\<close> and \<open>#\<close>, and removes tabs and line breaks\<close>
  "url_syntax = [CHR 0x5C, CHR ''?'', CHR ''#'', CHR 0x09, CHR 0x0A, CHR 0x0D]"

definition reserved_escape :: "char \<Rightarrow> char \<Rightarrow> bool" where
  \<comment> \<open>\<open>%hl\<close> is the escape of one of \<open>;/?:@&=+$,#\<close>: the escapes \<open>decodeURI\<close> leaves as
      they are\<close>
  "reserved_escape h l =
     (case esc_byte (Esc h l) of
        None \<Rightarrow> False
      | Some b \<Rightarrow> b < 128 \<and> char_of b \<in> set uriReserved_and_hash)"

fun carried :: "string \<Rightarrow> bool" where
  \<comment> \<open>a well-formed string with nothing of \<open>url_syntax\<close> in it, in which a \<open>%\<close> only
      stands at the start of a reserved escape\<close>
  "carried [] = True"
| "carried (a # s) =
     (let n = utf8_length (of_char a)
      in if a = CHR ''%'' then
           (case s of h # l # rest \<Rightarrow> reserved_escape h l \<and> carried rest | _ \<Rightarrow> False)
         else if n = 0 then a \<notin> set url_syntax \<and> carried s
         else if n = 1 \<or> 4 < n then False
         else n - 1 \<le> length s \<and> valid_utf8 (map of_char (a # take (n - 1) s))
              \<and> carried (drop (n - 1) s))"

definition carried_segment :: "string \<Rightarrow> bool" where
  \<comment> \<open>a name in a path in normal form: not empty, not \<open>.\<close> or \<open>..\<close>, without \<open>/\<close>\<close>
  "carried_segment s = (s \<noteq> [] \<and> s \<noteq> ''.'' \<and> s \<noteq> ''..'' \<and> CHR ''/'' \<notin> set s \<and> carried s)"

definition posix_path :: "string list \<Rightarrow> string" where
  \<comment> \<open>the absolute path \<open>/s1/s2/.../sn\<close>\<close>
  "posix_path segs = concat (map ((#) CHR ''/'') segs)"

definition drive_letter :: "char \<Rightarrow> bool" where
  "drive_letter c = (c \<in> set ''ABCDEFGHIJKLMNOPQRSTUVWXYZabcdefghijklmnopqrstuvwxyz'')"

definition hex_high :: "char \<Rightarrow> char" where
  \<comment> \<open>the first digit that \<open>percent_encode\<close> writes for a byte\<close>
  "hex_high c = upper_hex ((of_char c :: nat) div 16)"

definition hex_low :: "char \<Rightarrow> char" where
  \<comment> \<open>the second digit that \<open>percent_encode\<close> writes for a byte\<close>
  "hex_low c = upper_hex ((of_char c :: nat) mod 16)"

definition clean :: "char \<Rightarrow> bool" where
  \<comment> \<open>a character that the URL parser leaves in a path segment as it is\<close>
  "clean c = (\<not> path_set c \<and> c \<notin> set url_syntax \<and> c \<noteq> CHR ''/'')"

subsection \<open>A static file server and a project\<close>

datatype sirv_result = SentFile string | CalledNext

definition sirv_file :: "env \<Rightarrow> string \<Rightarrow> string \<Rightarrow> string" where
  \<comment> \<open>Modelled from the spec: the candidate filesystem path of a request, the file that
      the URL path (query stripped, percent-decoded where that succeeds) names below the
      root directory of the file server.\<close>
  "sirv_file e dir req_url =
     (let p = cleanUrl e req_url;
          name = (case decodeURI p of Some d \<Rightarrow> d | None \<Rightarrow> p)
      in path_resolve e dir (removeLeadingSlash name))"

definition sirv_model :: "env \<Rightarrow> sirv_result sirv" where
  \<comment> \<open>Modelled from the spec: the static file server is not in static.ts; it takes a root
      directory, a request and a per-path predicate, and sends the file the URL path names
      below the root or declines by calling the next stage; it asks the predicate about a
      file that exists.\<close>
  "sirv_model e dir opts req_url =
     (let file = sirv_file e dir req_url
      in if isFileReadable e file then
           (case shouldServe opts of
              None \<Rightarrow> Inr (SentFile file)
            | Some ok \<Rightarrow>
                (case ok file of
                   Inl err \<Rightarrow> Inl err
                 | Inr b \<Rightarrow> Inr (if b then SentFile file else CalledNext)))
         else Inr CalledNext)"



definition example_config :: resolved_config where
  \<comment> \<open>the policy of the spec's scenario: strict, the allow-root \<open>/proj\<close>, the deny pattern
      \<open>**/.env\<close>; here \<open>/proj/.env\<close> is a trusted path as well\<close>
  "example_config =
     \<lparr>root = ''/proj'', publicDir = ''/proj/public'',
      server = \<lparr>fs = \<lparr>strict = True, allow = [''/proj'']\<rparr>\<rparr>,
      resolve = \<lparr>aliases = []\<rparr>,
      fsDenyGlob = (\<lambda>p. suffix ''/.env'' p),
      safeModulePaths = {''/proj/.env''}\<rparr>"

definition example_server :: vite_dev_server where
  "example_server = \<lparr>config = example_config\<rparr>"

definition example_files :: "string list" where
  "example_files = [''/proj/.env'', ''/proj/foo.js'', ''/etc/passwd'', ''/abs/fileA.txt'']"

definition windows_config :: resolved_config where
  \<comment> \<open>a project on a Windows drive; the configured paths are in forward-slash form\<close>
  "windows_config =
     \<lparr>root = ''C:/proj'', publicDir = ''C:/proj/public'',
      server = \<lparr>fs = \<lparr>strict = True, allow = [''C:/proj'']\<rparr>\<rparr>,
      resolve = \<lparr>aliases = []\<rparr>,
      fsDenyGlob = (\<lambda>p. suffix ''/.env'' p),
      safeModulePaths = {}\<rparr>"

definition windows_file :: string where
  \<comment> \<open>\<open>C:\proj\src\app.ts\<close>, as the file server of a Windows host names the file\<close>
  "windows_file = ''C:'' @ [CHR 0x5C] @ ''proj'' @ [CHR 0x5C] @ ''src'' @ [CHR 0x5C] @ ''app.ts''"

definition lib_rule :: alias_rule where
  "lib_rule = \<lparr>find_pattern = FindString ''/lib'', replacement = ''/proj/vendor''\<rparr>"

definition assets_rule :: alias_rule where
  "assets_rule = \<lparr>find_pattern = FindString ''/assets'', replacement = ''/proj/static''\<rparr>"

definition catch_all_rule :: alias_rule where
  "catch_all_rule = \<lparr>find_pattern = FindString ''/'', replacement = ''/elsewhere/''\<rparr>"

definition docs_rule :: alias_rule where
  \<comment> \<open>for a project whose root is the file system's root: \<open>/docs\<close> is an alias of the root\<close>
  "docs_rule = \<lparr>find_pattern = FindString ''/docs'', replacement = ''/''\<rparr>"

definition linked_config :: resolved_config where
  \<comment> \<open>the example project with a linked package and \<open>/abs\<close> among its allow-roots\<close>
  "linked_config =
     example_config\<lparr>server := \<lparr>fs = \<lparr>strict = True,
                                      allow = [''/proj'', ''/home/user/linked-pkg'', ''/abs'']\<rparr>\<rparr>\<rparr>"

definition linked_server :: vite_dev_server where
  "linked_server = \<lparr>config = linked_config\<rparr>"

definition linked_files :: "string list" where
  "linked_files = ''/home/user/linked-pkg/index.js'' # example_files"


definition alias_server :: vite_dev_server where
  \<comment> \<open>the example project with three alias rules\<close>
  "alias_server =
     \<lparr>config = example_config\<lparr>resolve := \<lparr>aliases = [lib_rule, assets_rule, catch_all_rule]\<rparr>\<rparr>\<rparr>"

definition root_server :: vite_dev_server where
  \<comment> \<open>a project whose root is the root of the file system, with the alias \<open>/docs\<close>\<close>
  "root_server =
     \<lparr>config = \<lparr>root = ''/'', publicDir = ''/public'',
                  server = \<lparr>fs = \<lparr>strict = True, allow = [''/'']\<rparr>\<rparr>,
                  resolve = \<lparr>aliases = [docs_rule]\<rparr>,
                  fsDenyGlob = (\<lambda>p. suffix ''/.env'' p),
                  safeModulePaths = {}\<rparr>\<rparr>"

definition root_files :: "string list" where
  "root_files = [''/docs'', ''/a.txt'']"

definition strip_rule :: alias_rule where
  \<comment> \<open>an alias that removes the prefix \<open>/docs\<close>\<close>
  "strip_rule = \<lparr>find_pattern = FindString ''/docs'', replacement = []\<rparr>"

definition strip_server :: vite_dev_server where
  "strip_server = \<lparr>config = example_config\<lparr>resolve := \<lparr>aliases = [strip_rule]\<rparr>\<rparr>\<rparr>"

definition strip_files :: "string list" where
  "strip_files = [''/proj/docs'', ''/proj/a.txt'']"

definition fresh :: io_state where
  \<comment> \<open>a response nothing was written to\<close>
  "fresh = \<lparr>statusCode = 200, written = [], ended = False, logged = []\<rparr>"

section \<open>Properties\<close>

subsection \<open>The policy engine\<close>

lemma some_iff: "some f xs \<longleftrightarrow> (\<exists>x \<in> set xs. f x)"
  by (induction xs) auto

text \<open>
  C1. \<open>isFileLoadingAllowed\<close> decides in a fixed order: with \<open>strict\<close> off every path is
  allowed; otherwise a path the deny glob matches is refused; otherwise a path of
  \<open>safeModulePaths\<close> is allowed; otherwise a path that is the same as, or below, an entry
  of \<open>fs.allow\<close> is allowed; otherwise the path is refused.
\<close>

theorem isFileLoadingAllowed_order:
  "isFileLoadingAllowed e cfg p =
     (if \<not> strict (fs (server cfg)) then True
      else if fsDenyGlob cfg p then False
      else if p \<in> safeModulePaths cfg then True
      else if \<exists>uri \<in> set (allow (fs (server cfg))).
                 isSameFilePath e uri p \<or> isParentDirectory e uri p then True
      else False)"
  by (simp add: isFileLoadingAllowed_def some_iff isFileInTargetPath_def)

text \<open>
  C2. Under a strict policy a path the deny glob matches is refused, whatever else holds
  of it: that it is a trusted path, or that it is inside an allow-root.
\<close>

theorem deny_takes_precedence:
  "strict (fs (server cfg)) \<Longrightarrow> fsDenyGlob cfg p \<Longrightarrow> \<not> isFileLoadingAllowed e cfg p"
  by (simp add: isFileLoadingAllowed_def)

text \<open>
  In the example project \<open>/proj/.env\<close> matches the deny glob, is a trusted path and is
  inside the allow-root \<open>/proj\<close>; it is refused.
\<close>

theorem deny_takes_precedence_witness:
  "strict (fs (server example_config)) \<and> fsDenyGlob example_config ''/proj/.env''
   \<and> ''/proj/.env'' \<in> safeModulePaths example_config
   \<and> some (\<lambda>uri. isFileInTargetPath (node_env False []) uri ''/proj/.env'')
         (allow (fs (server example_config)))
   \<and> \<not> isFileLoadingAllowed (node_env False []) example_config ''/proj/.env''"
proof -
  have s: "strict (fs (server example_config))"
    by (simp add: example_config_def)
  have d: "fsDenyGlob example_config ''/proj/.env''"
    by (simp add: example_config_def suffix_to_prefix)
  have t: "''/proj/.env'' \<in> safeModulePaths example_config"
    by (simp add: example_config_def)
  have a: "some (\<lambda>uri. isFileInTargetPath (node_env False []) uri ''/proj/.env'')
             (allow (fs (server example_config)))"
    by (simp add: example_config_def isFileInTargetPath_def node_env_def
        isParentDirectory_model_def isSameFilePath_model_def withTrailingSlash_def)
  from s d t a deny_takes_precedence [OF s d, of "node_env False []"] show ?thesis
    by blast
qed

subsection \<open>The three-valued decision\<close>

text \<open>
  C3, as the code has it. \<open>checkLoadingAccess\<close> asks the policy engine about \<open>slash(path)\<close>,
  the forward-slash form of the path, and the disk about the path itself: the result is
  \<open>allowed\<close> exactly when the engine allows \<open>slash(path)\<close>; otherwise it is \<open>denied\<close> exactly
  when the path is readable, and \<open>fallback\<close> exactly when it is not. There is no fourth
  result: \<^typ>\<open>access\<close> has three values.
\<close>

theorem checkLoadingAccess_three_valued:
  "(checkLoadingAccess e cfg p = Allowed \<longleftrightarrow> isFileLoadingAllowed e cfg (slash e p))
   \<and> (checkLoadingAccess e cfg p = Denied
        \<longleftrightarrow> \<not> isFileLoadingAllowed e cfg (slash e p) \<and> isFileReadable e p)
   \<and> (checkLoadingAccess e cfg p = Fallback
        \<longleftrightarrow> \<not> isFileLoadingAllowed e cfg (slash e p) \<and> \<not> isFileReadable e p)"
  by (simp add: checkLoadingAccess_def)

text \<open>
  The result is not the engine's answer on the path as given. On a Windows host the file
  server names a file \<open>C:\proj\src\app.ts\<close>, the allow-root is \<open>C:/proj\<close>: the engine refuses
  the path as given, and \<open>checkLoadingAccess\<close> allows it.
\<close>

theorem checkLoadingAccess_raw_path_counterexample:
  "checkLoadingAccess (node_env True []) windows_config windows_file = Allowed
   \<and> \<not> isFileLoadingAllowed (node_env True []) windows_config windows_file"
  by (simp add: checkLoadingAccess_def isFileLoadingAllowed_def windows_config_def
      windows_file_def node_env_def slash_model_def isFileInTargetPath_def suffix_to_prefix
      isParentDirectory_model_def isSameFilePath_model_def withTrailingSlash_def)

subsection \<open>The deprecated entry point\<close>

text \<open>
  C10. The two call shapes of \<open>isFileServingAllowed\<close> agree: \<open>(config, url)\<close> and
  \<open>(url, server)\<close> with \<open>server.config = config\<close> return the same boolean, which is \<open>true\<close>
  when \<open>strict\<close> is off and otherwise what \<open>isFileLoadingAllowed\<close> says of
  \<open>fsPathFromUrl(url)\<close>.
\<close>

theorem isFileServingAllowed_overloads:
  "isFileServingAllowed e (IsConfig cfg) (IsString u)
     = isFileServingAllowed e (IsUrl u) (IsServer (srv\<lparr>config := cfg\<rparr>))
   \<and> isFileServingAllowed e (IsConfig cfg) (IsString u)
     = Inr (if \<not> strict (fs (server cfg)) then True
            else isFileLoadingAllowed e cfg (fsPathFromUrl e u))"
  by simp

subsection \<open>Faults of the static file server\<close>

text \<open>
  What the \<open>catch\<close> block of both stages does with a thrown value. A thrown object is
  answered with the 403 response for its \<open>path\<close> when its \<open>code\<close> is \<open>ERR_DENIED_FILE\<close>, and
  leaves the stage as it is otherwise; so does a falsy value. For a truthy value that is
  not an object the test \<open>'code' in e\<close> throws a \<open>TypeError\<close>, and that leaves the stage.
\<close>

lemma catch_block_not_Next: "catch_block srv st err \<noteq> Next"
  by (simp add: catch_block_def split: sum.splits)

lemma catch_block_object:
  "catch_block srv st (JObject ps) =
     (if map_of ps ''code'' = Some (JString ERR_DENIED_FILE)
      then AccessDenied
             (respondWithAccessDenied
                (template_string (case map_of ps ''path'' of None \<Rightarrow> JUndefined | Some v \<Rightarrow> v))
                srv st)
      else Raised (JObject ps))"
  by (auto simp: catch_block_def is_denied_file_def split: option.splits)

lemma catch_block_falsy: "\<not> truthy err \<Longrightarrow> catch_block srv st err = Raised err"
  by (simp add: catch_block_def is_denied_file_def)

lemma catch_block_primitive:
  "truthy err \<Longrightarrow> (\<forall>ps. err \<noteq> JObject ps) \<Longrightarrow> catch_block srv st err = Raised TypeError"
  by (cases err) (simp_all add: catch_block_def is_denied_file_def)

lemma stages_catch:
  "static_request e srv u = Inr (Some u') \<Longrightarrow>
     sirv (root (config srv)) (sirvOptions e (config srv) False) u' = Inl err \<Longrightarrow>
     viteServeStaticMiddleware e sirv srv st u = catch_block srv st err"
  "raw_fs_request e u = Inr (Some u') \<Longrightarrow>
     sirv ''/'' (sirvOptions e (config srv) False) u' = Inl err \<Longrightarrow>
     viteServeRawFsMiddleware e sirv srv st u = catch_block srv st err"
  by (simp_all add: viteServeStaticMiddleware_def viteServeRawFsMiddleware_def)

lemma shouldServe_throws:
  "\<exists>ok. shouldServe (sirvOptions e cfg False) = Some ok
        \<and> (\<forall>p thrown. ok p = Inl thrown
              \<longleftrightarrow> checkLoadingAccess e cfg p = Denied \<and> thrown = denied_error p)"
  by (auto simp: sirvOptions_def split: access.splits)


subsection \<open>The gate of the root stage\<close>

text \<open>
  C8, as the code has it. The root stage returns \<open>next()\<close> by itself, before it resolves
  anything or hands the request to the file server, exactly for a request URL whose
  cleaned form ends in \<open>/\<close> or has the extension \<open>.html\<close>, or that is an internal request, or
  that begins with \<open>//\<close>. Whether the request is an import request plays no part.
\<close>

theorem root_stage_gate:
  "viteServeStaticMiddleware e sirv srv st u = Next
     \<longleftrightarrow> suffix ''/'' (cleanUrl e u) \<or> path_extname e (cleanUrl e u) = ''.html''
          \<or> isInternalRequest e u \<or> prefix ''//'' u"
  by (auto simp: viteServeStaticMiddleware_def static_request_def Let_def catch_block_not_Next
      split: sum.splits option.splits)

text \<open>
  The root stage does not decline an import request: \<open>/foo.js?import\<close> carries the marker,
  and the stage hands it to the file server, which sends \<open>/proj/foo.js\<close>.
\<close>

theorem import_request_counterexample:
  "isImportRequest (node_env False example_files) ''/foo.js?import''
   \<and> viteServeStaticMiddleware (node_env False example_files)
        (sirv_model (node_env False example_files)) example_server fresh ''/foo.js?import''
       = Served ''/foo.js?import'' (SentFile ''/proj/foo.js'')"
  by code_simp

subsection \<open>A malformed percent-escape\<close>

lemma toFilePath_decode_failure:
  "decodeURI (cleanUrl e u) = None \<Longrightarrow> toFilePath e u = normalizePath e (cleanUrl e u)"
  by (simp add: toFilePath_def Let_def)

lemmas url_parser_defs =
  whatwg_URL_new_def c0_or_space_def tab_or_newline_def has_scheme_def lower_ascii_def
  is_separator_def parse_query_fragment_def parse_path_def single_dot_def double_dot_def
  encode_with_def path_set_def query_set_def c0_control_set_def serialize_path_def

lemma static_request_malformed:
  "static_request (node_env w files) srv ''/foo%'' = Inl URIError"
  by (simp add: static_request_def node_env_def cleanUrl_model_def posix_extname_def
        isInternalRequest_model_def FS_PREFIX_def suffix_to_prefix url_parser_defs
        decodeURI_def Let_def)

lemma raw_fs_request_malformed:
  "raw_fs_request (node_env w files) ''/@fs/foo%'' = Inl URIError"
  by (simp add: raw_fs_request_def node_env_def FS_PREFIX_def url_parser_defs
        decodeURI_def Let_def)

text \<open>
  C4. Only the public stage recovers from a malformed escape: \<open>toFilePath\<close> keeps the
  string as it is when \<open>decodeURI\<close> fails. The root stage and the raw-fs stage call
  \<open>decodeURI\<close> outside any \<open>try\<close>: on \<open>/foo%\<close> and on \<open>/@fs/foo%\<close> the \<open>URIError\<close> leaves the
  middleware, whatever the file server, the project and the platform are.
\<close>

theorem decode_failure_is_raised:
  "viteServeStaticMiddleware (node_env w files) sirv srv st ''/foo%'' = Raised URIError
   \<and> viteServeRawFsMiddleware (node_env w files) sirv srv st ''/@fs/foo%'' = Raised URIError
   \<and> toFilePath (node_env w files) ''/foo%'' = normalizePath (node_env w files) ''/foo%''"
proof -
  have "decodeURI (cleanUrl (node_env w files) ''/foo%'') = None"
    by (simp add: node_env_def cleanUrl_model_def decodeURI_def)
  then have "toFilePath (node_env w files) ''/foo%''
               = normalizePath (node_env w files) (cleanUrl (node_env w files) ''/foo%'')"
    by (rule toFilePath_decode_failure)
  moreover have "cleanUrl (node_env w files) ''/foo%'' = ''/foo%''"
    by (simp add: node_env_def cleanUrl_model_def)
  ultimately show ?thesis
    by (simp add: viteServeStaticMiddleware_def viteServeRawFsMiddleware_def
        static_request_malformed raw_fs_request_malformed)
qed

subsection \<open>The denial response\<close>

lemma escapeHtml_append: "escapeHtml (a @ b) = escapeHtml a @ escapeHtml b"
  by (simp add: escapeHtml_def)

lemma replace_newlines_append:
  "replace_newlines (a @ b) = replace_newlines a @ replace_newlines b"
  by (simp add: replace_newlines_def)

lemma escaped_char_no_tag:
  "sublist (CHR ''<'' # CHR ''s'' # t) (replace_newlines (escapeHtml [c]) @ x)
     \<longleftrightarrow> sublist (CHR ''<'' # CHR ''s'' # t) x"
  by (simp add: escapeHtml_def replace_newlines_def sublist_Cons_right)

lemma escaped_no_tag:
  "sublist (CHR ''<'' # CHR ''s'' # t) (replace_newlines (escapeHtml m) @ x)
     \<longleftrightarrow> sublist (CHR ''<'' # CHR ''s'' # t) x"
proof (induction m)
  case Nil
  show ?case by (simp add: escapeHtml_def replace_newlines_def)
next
  case (Cons c m)
  have "replace_newlines (escapeHtml (c # m)) @ x
          = replace_newlines (escapeHtml [c]) @ (replace_newlines (escapeHtml m) @ x)"
    using escapeHtml_append [of "[c]" m] by (simp add: replace_newlines_append)
  then show ?case
    using Cons.IH escaped_char_no_tag [of t c "replace_newlines (escapeHtml m) @ x"] by simp
qed

lemma html_after_no_script: "\<not> sublist ''<script'' html_after"
  by (simp add: html_after_def sublist_Cons_right)

lemma html_before_no_script: "sublist ''<script'' (html_before @ y) \<longleftrightarrow> sublist ''<script'' y"
  by (simp add: html_before_def sublist_Cons_right)

lemma rendered_no_script: "\<not> sublist ''<script'' (renderRestrictedErrorHTML m)"
  using escaped_no_tag [of "''cript''" m html_after]
  by (simp add: renderRestrictedErrorHTML_def html_before_no_script html_after_no_script)

lemma escapeHtml_no_special:
  "set (escapeHtml m) \<inter> {CHR ''<'', CHR ''>'', CHR 0x22, CHR 0x27} = {}"
  by (induction m) (auto simp: escapeHtml_def)

lemma escaped_Nil: "replace_newlines (escapeHtml []) = []"
  by (simp add: escapeHtml_def replace_newlines_def)

lemma escaped_newline:
  "replace_newlines (escapeHtml (CHR 0x0A # s)) = ''<br/>'' @ replace_newlines (escapeHtml s)"
  by (simp add: escapeHtml_def replace_newlines_def)

lemma escaped_dash:
  "replace_newlines (escapeHtml (CHR ''-'' # CHR '' '' # r))
     = CHR ''-'' # CHR '' '' # replace_newlines (escapeHtml r)"
  by (simp add: escapeHtml_def replace_newlines_def)

lemma escaped_chars:
  "replace_newlines (escapeHtml s)
     = concat (map (\<lambda>c. if c = CHR 0x22 then ''&quot;''
                         else if c = CHR ''&'' then ''&amp;''
                         else if c = CHR 0x27 then ''&#39;''
                         else if c = CHR ''<'' then ''&lt;''
                         else if c = CHR ''>'' then ''&gt;''
                         else if c = CHR 0x0A then ''<br/>''
                         else [c]) s)"
  by (induction s) (auto simp: escapeHtml_def replace_newlines_def)

lemma escaped_roots:
  "replace_newlines (escapeHtml (join_lines (map (\<lambda>r. ''- '' @ r) roots)))
     = (case roots of
          [] \<Rightarrow> []
        | r # rs \<Rightarrow> ''- '' @ replace_newlines (escapeHtml r)
                    @ concat (map (\<lambda>x. ''<br/>- '' @ replace_newlines (escapeHtml x)) rs))"
proof (cases roots)
  case Nil
  then show ?thesis by (simp add: join_lines_def join_with_def escaped_Nil)
next
  case (Cons r rs)
  have "replace_newlines (escapeHtml (concat (map ((@) [CHR 0x0A]) (map (\<lambda>r. ''- '' @ r) rs))))
          = concat (map (\<lambda>x. ''<br/>- '' @ replace_newlines (escapeHtml x)) rs)"
    by (induction rs)
       (simp_all add: escaped_Nil escaped_newline escaped_dash escapeHtml_append
          replace_newlines_append)
  with Cons show ?thesis
    by (simp add: join_lines_def join_with_def escapeHtml_append replace_newlines_append
        escaped_dash)
qed

lemma escaped_text:
  "replace_newlines (escapeHtml '' is outside of Vite serving allow list.'')
     = '' is outside of Vite serving allow list.''"
  "replace_newlines (escapeHtml ''The request id '') = ''The request id ''"
  "replace_newlines (escapeHtml ''Refer to docs https://vite.dev/config/server-options.html#server-fs-allow for configurations and more details.'') = ''Refer to docs https://vite.dev/config/server-options.html#server-fs-allow for configurations and more details.''"
  "replace_newlines (escapeHtml [CHR 0x22]) = ''&quot;''"
  "replace_newlines (escapeHtml [CHR 0x0A]) = ''<br/>''"
  "replace_newlines (escapeHtml [CHR 0x0A, CHR 0x0A]) = ''<br/><br/>''"
  by (simp_all add: escapeHtml_def replace_newlines_def)

lemma escaped_message:
  "replace_newlines (escapeHtml (urlMessage i @ [CHR 0x0A] @ [CHR 0x0A] @ listing
       @ [CHR 0x0A, CHR 0x0A] @ ''Refer to docs https://vite.dev/config/server-options.html#server-fs-allow for configurations and more details.''))
     = ''The request id &quot;'' @ replace_newlines (escapeHtml i)
        @ ''&quot; is outside of Vite serving allow list.<br/><br/>''
        @ replace_newlines (escapeHtml listing)
        @ ''<br/><br/>Refer to docs https://vite.dev/config/server-options.html#server-fs-allow for configurations and more details.''"
  unfolding urlMessage_def
  by (simp only: escapeHtml_append replace_newlines_append escaped_text append_assoc)
     simp

text \<open>
  C6. The denial response for a path has status 403 and is ended. What it writes is the
  fixed page around one interpolated text, and that text is: the sentence that names the
  path, the path escaped, between two \<open>&quot;\<close>; two line breaks; the allow-roots, each
  escaped and after \<open>- \<close>, with \<open><br/>\<close> between them; two line breaks; the reference to
  the docs. Escaping replaces the two quotes, \<open>&\<close>, \<open><\<close> and \<open>>\<close> by their entities and, in the
  page, every line break by \<open><br/>\<close>, and leaves every other character: none of \<open><\<close>, \<open>>\<close>
  and the two quotes is left in an escaped text, and the page has no \<open><script\<close> in it
  whatever the interpolated text is. For the path \<open>/etc/<script>alert(1)</script>\<close> and the
  allow-roots \<open>/proj\<close>, \<open>/home/user/linked-pkg\<close> and \<open>/abs\<close> the response is the one written
  out below: the path reads \<open>/etc/&lt;script&gt;alert(1)&lt;/script&gt;\<close> in it.
\<close>

theorem denial_response_is_escaped:
  "statusCode (respondWithAccessDenied i srv st) = 403
   \<and> ended (respondWithAccessDenied i srv st)
   \<and> written (respondWithAccessDenied i srv st)
       = written st @ html_before
           @ ''The request id &quot;'' @ replace_newlines (escapeHtml i)
           @ ''&quot; is outside of Vite serving allow list.<br/><br/>''
           @ (case allow (fs (server (config srv))) of
                [] \<Rightarrow> []
              | r # rs \<Rightarrow> ''- '' @ replace_newlines (escapeHtml r)
                          @ concat (map (\<lambda>x. ''<br/>- '' @ replace_newlines (escapeHtml x)) rs))
           @ ''<br/><br/>Refer to docs https://vite.dev/config/server-options.html#server-fs-allow for configurations and more details.''
           @ html_after
   \<and> replace_newlines (escapeHtml m)
       = concat (map (\<lambda>c. if c = CHR 0x22 then ''&quot;''
                           else if c = CHR ''&'' then ''&amp;''
                           else if c = CHR 0x27 then ''&#39;''
                           else if c = CHR ''<'' then ''&lt;''
                           else if c = CHR ''>'' then ''&gt;''
                           else if c = CHR 0x0A then ''<br/>''
                           else [c]) m)
   \<and> set (escapeHtml m) \<inter> {CHR ''<'', CHR ''>'', CHR 0x22, CHR 0x27} = {}
   \<and> \<not> sublist ''<script'' (html_before @ replace_newlines (escapeHtml m) @ html_after)
   \<and> respondWithAccessDenied ''/etc/<script>alert(1)</script>'' linked_server fresh
       = \<lparr>statusCode = 403,
          written = ''\<newline>    <body>\<newline>      <h1>403 Restricted</h1>\<newline>      <p>The request id &quot;/etc/&lt;script&gt;alert(1)&lt;/script&gt;&quot; is outside of Vite serving allow list.<br/><br/>- /proj<br/>- /home/user/linked-pkg<br/>- /abs<br/><br/>Refer to docs https://vite.dev/config/server-options.html#server-fs-allow for configurations and more details.</p>\<newline>      <style>\<newline>        body {\<newline>          padding: 1em 2em;\<newline>        }\<newline>      </style>\<newline>    </body>\<newline>  '',
          ended = True,
          logged = [LogError (''The request id '' @ [CHR 0x22] @ ''/etc/<script>alert(1)</script>'' @ [CHR 0x22] @ '' is outside of Vite serving allow list.''),
                    LogWarnOnce ''\<newline>- /proj\<newline>- /home/user/linked-pkg\<newline>- /abs\<newline>\<newline>Refer to docs https://vite.dev/config/server-options.html#server-fs-allow for configurations and more details.\<newline>'']\<rparr>"
proof -
  have status: "statusCode (respondWithAccessDenied i srv st) = 403"
    by (simp add: respondWithAccessDenied_def)
  have fin: "ended (respondWithAccessDenied i srv st)"
    by (simp add: respondWithAccessDenied_def)
  have "written (respondWithAccessDenied i srv st)
          = written st @ html_before
              @ replace_newlines (escapeHtml (urlMessage i @ [CHR 0x0A] @ hintMessage srv))
              @ html_after"
    by (simp add: respondWithAccessDenied_def renderRestrictedErrorHTML_def)
  moreover have "replace_newlines (escapeHtml (urlMessage i @ [CHR 0x0A] @ hintMessage srv))
      = ''The request id &quot;'' @ replace_newlines (escapeHtml i)
        @ ''&quot; is outside of Vite serving allow list.<br/><br/>''
        @ replace_newlines (escapeHtml (join_lines (map (\<lambda>r. ''- '' @ r)
              (allow (fs (server (config srv)))))))
        @ ''<br/><br/>Refer to docs https://vite.dev/config/server-options.html#server-fs-allow for configurations and more details.''"
    unfolding hintMessage_def by (rule escaped_message)
  ultimately have body: "written (respondWithAccessDenied i srv st)
       = written st @ html_before
           @ ''The request id &quot;'' @ replace_newlines (escapeHtml i)
           @ ''&quot; is outside of Vite serving allow list.<br/><br/>''
           @ (case allow (fs (server (config srv))) of
                [] \<Rightarrow> []
              | r # rs \<Rightarrow> ''- '' @ replace_newlines (escapeHtml r)
                          @ concat (map (\<lambda>x. ''<br/>- '' @ replace_newlines (escapeHtml x)) rs))
           @ ''<br/><br/>Refer to docs https://vite.dev/config/server-options.html#server-fs-allow for configurations and more details.''
           @ html_after"
    by (simp only: escaped_roots append_assoc)
  have special: "set (escapeHtml m) \<inter> {CHR ''<'', CHR ''>'', CHR 0x22, CHR 0x27} = {}"
    by (rule escapeHtml_no_special)
  have raw: "\<not> sublist ''<script'' (html_before @ replace_newlines (escapeHtml m) @ html_after)"
    using rendered_no_script [of m] unfolding renderRestrictedErrorHTML_def .
  have page: "respondWithAccessDenied ''/etc/<script>alert(1)</script>'' linked_server fresh
       = \<lparr>statusCode = 403,
          written = ''\<newline>    <body>\<newline>      <h1>403 Restricted</h1>\<newline>      <p>The request id &quot;/etc/&lt;script&gt;alert(1)&lt;/script&gt;&quot; is outside of Vite serving allow list.<br/><br/>- /proj<br/>- /home/user/linked-pkg<br/>- /abs<br/><br/>Refer to docs https://vite.dev/config/server-options.html#server-fs-allow for configurations and more details.</p>\<newline>      <style>\<newline>        body {\<newline>          padding: 1em 2em;\<newline>        }\<newline>      </style>\<newline>    </body>\<newline>  '',
          ended = True,
          logged = [LogError (''The request id '' @ [CHR 0x22] @ ''/etc/<script>alert(1)</script>'' @ [CHR 0x22] @ '' is outside of Vite serving allow list.''),
                    LogWarnOnce ''\<newline>- /proj\<newline>- /home/user/linked-pkg\<newline>- /abs\<newline>\<newline>Refer to docs https://vite.dev/config/server-options.html#server-fs-allow for configurations and more details.\<newline>'']\<rparr>"
    by code_simp
  from status fin body escaped_chars [of m] special raw page show ?thesis
    by (intro conjI)
qed

subsection \<open>Alias rewriting in the root stage\<close>

text \<open>
  What the root stage hands to the file server, for a request it does not decline and
  whose URL parses and decodes to \<open>pathname\<close>. The first rule that matches rewrites the
  pathname and the rules after it are not tried; when the result starts with the root as
  a directory prefix, the root is cut off; the request URL then becomes the encoded
  result, with the query and fragment it had. When the root does not end in \<open>/\<close>, what is
  left after the cut starts with \<open>/\<close>. With no matching rule the request URL is the one
  that came in. All this holds only while the rewritten path is not the empty string: for
  the empty string the stage leaves the request URL as it came in.
\<close>

lemma alias_loop_first_match:
  "alias_matches a pathname \<Longrightarrow> \<forall>b \<in> set before. \<not> alias_matches b pathname \<Longrightarrow>
     alias_loop pathname (before @ a # rest) = Some (alias_replace a pathname)"
  by (induction before) auto

lemma strip_leaves_slash:
  assumes "\<not> suffix ''/'' dir" and "prefix (withTrailingSlash dir) r"
  shows "drop (length dir) r \<noteq> [] \<and> hd (drop (length dir) r) = CHR ''/''"
proof -
  from assms(1) have "withTrailingSlash dir = dir @ ''/''"
    by (auto simp: withTrailingSlash_def suffix_def) (metis append_butlast_last_id)
  with assms(2) obtain t where "r = dir @ ''/'' @ t"
    by (auto simp: prefix_def)
  then show ?thesis by simp
qed

lemma static_request_reached:
  assumes "static_request e srv u \<noteq> Inr None"
    and "URL_new e u = Inr pu" and "decodeURI (url_pathname pu) = Some pathname"
  shows "static_request e srv u =
           (case redirectedPathname (root (config srv)) (aliases (resolve (config srv))) pathname of
              None \<Rightarrow> Inr (Some u)
            | Some r \<Rightarrow> if r = [] then Inr (Some u) else Inr (Some (rewritten_url e pu r)))"
  using assms
  by (auto simp: static_request_def Let_def truthy_string_def split: option.splits if_splits)

lemma alias_rewrites_the_request:
  assumes "static_request e srv u \<noteq> Inr None"
    and "URL_new e u = Inr pu" and "decodeURI (url_pathname pu) = Some pathname"
    and "aliases (resolve (config srv)) = before @ a # rest"
    and "alias_matches a pathname" and "\<forall>b \<in> set before. \<not> alias_matches b pathname"
  shows "static_request e srv u =
           (let r = alias_replace a pathname;
                r' = (if r \<noteq> [] \<and> prefix (withTrailingSlash (root (config srv))) r
                      then drop (length (root (config srv))) r else r)
            in if r' = [] then Inr (Some u) else Inr (Some (rewritten_url e pu r')))"
proof -
  from assms(4-6) have "alias_loop pathname (aliases (resolve (config srv)))
                        = Some (alias_replace a pathname)"
    by (simp add: alias_loop_first_match)
  then show ?thesis
    using static_request_reached [OF assms(1-3)]
    by (simp add: redirectedPathname_def truthy_string_def Let_def)
qed

lemma no_alias_keeps_the_request:
  assumes "static_request e srv u \<noteq> Inr None"
    and "URL_new e u = Inr pu" and "decodeURI (url_pathname pu) = Some pathname"
    and "\<forall>b \<in> set (aliases (resolve (config srv))). \<not> alias_matches b pathname"
  shows "static_request e srv u = Inr (Some u)"
proof -
  have "alias_loop pathname rules = None" if "\<forall>b \<in> set rules. \<not> alias_matches b pathname" for rules
    using that by (induction rules) auto
  with assms(4) show ?thesis
    using static_request_reached [OF assms(1-3)] by (simp add: redirectedPathname_def)
qed

text \<open>
  C9. Rewriting works as the claim says on \<open>/assets/logo.png?v=1\<close> (the first of two
  matching rules is applied, the file server is asked for \<open>/static/logo.png?v=1\<close> and
  sends \<open>/proj/static/logo.png\<close>) and on \<open>/docs/a.txt\<close> (the root prefix is cut off and the
  remainder \<open>/a.txt\<close> is served root-relative). It fails when nothing is left of the
  rewritten path. With the root \<open>/\<close> and the alias \<open>/docs\<close> to \<open>/\<close>, the request \<open>/docs\<close> is
  rewritten to \<open>/\<close>, which starts with the root; the remainder is the empty string; the
  file server rooted at \<open>/\<close> would resolve it to \<open>/\<close>, but the stage hands it the request
  \<open>/docs\<close> unchanged and the file \<open>/docs\<close> is sent. With the root \<open>/proj\<close> and the alias \<open>/docs\<close>
  to the empty string, the request \<open>/docs\<close> is rewritten to the empty string, and again
  the file server gets \<open>/docs\<close> and sends \<open>/proj/docs\<close>. The empty string is falsy in
  \<open>if (redirectedPathname)\<close> (lines 168 and 180).
\<close>

theorem empty_rewritten_path_is_dropped:
  "viteServeStaticMiddleware (node_env False root_files) (sirv_model (node_env False root_files))
       root_server fresh ''/docs/a.txt''
     = Served ''/a.txt'' (SentFile ''/a.txt'')
   \<and> alias_loop ''/docs'' (aliases (resolve (config root_server))) = Some ''/''
   \<and> prefix (withTrailingSlash (root (config root_server))) ''/''
   \<and> drop (length (root (config root_server))) ''/'' = []
   \<and> sirv_file (node_env False root_files) (root (config root_server)) [] = ''/''
   \<and> static_request (node_env False root_files) root_server ''/docs'' = Inr (Some ''/docs'')
   \<and> viteServeStaticMiddleware (node_env False root_files) (sirv_model (node_env False root_files))
       root_server fresh ''/docs''
     = Served ''/docs'' (SentFile ''/docs'')
   \<and> viteServeStaticMiddleware (node_env False strip_files)
       (sirv_model (node_env False strip_files)) strip_server fresh ''/docs/a.txt''
     = Served ''/a.txt'' (SentFile ''/proj/a.txt'')
   \<and> alias_loop ''/docs'' (aliases (resolve (config strip_server))) = Some []
   \<and> viteServeStaticMiddleware (node_env False strip_files)
       (sirv_model (node_env False strip_files)) strip_server fresh ''/docs''
     = Served ''/docs'' (SentFile ''/proj/docs'')
   \<and> alias_matches catch_all_rule ''/assets/logo.png''
   \<and> viteServeStaticMiddleware (node_env False [''/proj/static/logo.png''])
       (sirv_model (node_env False [''/proj/static/logo.png''])) alias_server fresh
       ''/assets/logo.png?v=1''
     = Served ''/static/logo.png?v=1'' (SentFile ''/proj/static/logo.png'')"
  by code_simp

subsection \<open>The escape hatch\<close>

text \<open>
  Percent-encoding a byte and reading the escape back.
\<close>

lemma percent_encode_digits: "percent_encode c = [CHR ''%'', hex_high c, hex_low c]"
  by (simp add: percent_encode_def hex_high_def hex_low_def)

lemma hex_digit_upper_hex: "m < 16 \<Longrightarrow> hex_digit (upper_hex m) = Some m"
  by (simp add: hex_digit_def upper_hex_def Let_def)

lemma hex_digit_percent: "hex_digit CHR ''%'' = None"
  by code_simp

lemma hex_digits:
  "hex_digit (hex_high c) = Some ((of_char c :: nat) div 16)"
  "hex_digit (hex_low c) = Some ((of_char c :: nat) mod 16)"
  "esc_byte (Esc (hex_high c) (hex_low c)) = Some (of_char c)"
  "hex_high c \<noteq> CHR ''%''" "hex_low c \<noteq> CHR ''%''"
proof -
  have "(of_char c :: nat) < 256" by (rule nat_of_char_less_256)
  then have "(of_char c :: nat) div 16 < 16" by arith
  then show h: "hex_digit (hex_high c) = Some ((of_char c :: nat) div 16)"
    by (simp add: hex_high_def hex_digit_upper_hex)
  show l: "hex_digit (hex_low c) = Some ((of_char c :: nat) mod 16)"
    by (simp add: hex_low_def hex_digit_upper_hex)
  from h l show "esc_byte (Esc (hex_high c) (hex_low c)) = Some (of_char c)" by simp
  from h show "hex_high c \<noteq> CHR ''%''" using hex_digit_percent by auto
  from l show "hex_low c \<noteq> CHR ''%''" using hex_digit_percent by auto
qed

lemma encode_with_Cons:
  "encode_with E (c # s) = (if E c then percent_encode c else [c]) @ encode_with E s"
  by (simp add: encode_with_def)

lemma encode_with_append: "encode_with E (x @ y) = encode_with E x @ encode_with E y"
  by (simp add: encode_with_def)

lemma encode_with_all:
  "list_all E cs \<Longrightarrow> encode_with E cs = concat (map percent_encode cs)"
  by (induction cs) (simp_all add: encode_with_def)

lemma uri_tokens_escaped:
  "uri_tokens (concat (map percent_encode cs) @ r)
     = map_option ((@) (map (\<lambda>c. Esc (hex_high c) (hex_low c)) cs)) (uri_tokens r)"
proof (induction cs)
  case Nil
  show ?case by (simp add: option.map_ident)
next
  case (Cons c cs)
  then show ?case
    by (simp add: percent_encode_digits hex_digits option.map_comp comp_def)
qed

lemma valid_utf8_high: "valid_utf8 bs \<Longrightarrow> b \<in> set bs \<Longrightarrow> 128 \<le> b"
  by (cases bs rule: valid_utf8.cases) (auto split: if_splits)

text \<open>
  \<open>decodeURI\<close> undoes an encoding that keeps ASCII characters only and encodes no reserved
  character, on every carried string: the URL parser's encoding of a path is one, and
  \<open>encodeURI\<close> is another.
\<close>

lemma decode_tokens_multibyte:
  assumes n: "utf8_length (of_char a) = n" "2 \<le> n" "n \<le> 4"
    and len: "length cs = n - 1"
    and v: "valid_utf8 (map of_char (a # cs))"
  shows "decode_tokens (map (\<lambda>c. Esc (hex_high c) (hex_low c)) (a # cs) @ ts)
           = map_option ((@) (a # cs)) (decode_tokens ts)"
proof -
  let ?f = "\<lambda>c. Esc (hex_high c) (hex_low c)"
  let ?more = "map esc_byte (take (n - 1) (map ?f cs @ ts))"
  have more: "?more = map (\<lambda>c. Some (of_char c)) cs"
    using len by (simp add: hex_digits comp_def)
  then have a: "length ?more = n - 1" "None \<notin> set ?more" "map the ?more = map of_char cs"
    using len by (auto simp: comp_def)
  have b: "map char_of ((of_char a :: nat) # map of_char cs) = a # cs"
    by (simp add: comp_def)
  have d: "drop (n - 1) (map ?f cs @ ts) = ts"
    using len by simp
  have "decode_tokens (?f a # (map ?f cs @ ts))
          = map_option ((@) (a # cs)) (decode_tokens ts)"
    using n v
    by (simp only: decode_tokens.simps hex_digits option.case Let_def a b d) simp
  then show ?thesis by simp
qed

lemma reserved_escapeD:
  assumes "reserved_escape h l"
  obtains b where "esc_byte (Esc h l) = Some b" and "b < 128"
    and "char_of b \<in> set uriReserved_and_hash"
    and "hex_digit h \<noteq> None" and "hex_digit l \<noteq> None"
  using assms by (auto simp: reserved_escape_def split: option.splits)

lemma percent_kept: "utf8_length (of_char CHR ''%'') = 0" "CHR ''%'' \<notin> set uriReserved_and_hash"
  by (simp_all add: utf8_length_def uriReserved_and_hash_def)

lemma decode_tokens_ascii:
  assumes "esc_byte (Esc h l) = Some b" and "b < 128"
  shows "decode_tokens (Esc h l # ts)
           = (if char_of b \<in> set uriReserved_and_hash
              then map_option ((@) [CHR ''%'', h, l]) (decode_tokens ts)
              else map_option ((#) (char_of b)) (decode_tokens ts))"
  using assms by (simp add: utf8_length_def Let_def del: esc_byte.simps)

declare decode_tokens.simps(3) [simp del]

lemma decode_tokens_encoded:
  assumes "(of_char c :: nat) < 128" and "c \<notin> set uriReserved_and_hash"
  shows "decode_tokens (Esc (hex_high c) (hex_low c) # ts) = map_option ((#) c) (decode_tokens ts)"
proof -
  have "char_of (of_char c :: nat) = c" by simp
  with assms(2) show ?thesis
    using decode_tokens_ascii [OF hex_digits(3) [of c] assms(1), of ts] by (simp only: if_False)
qed

lemma decode_tokens_percent:
  "decode_tokens (Esc (hex_high CHR ''%'') (hex_low CHR ''%'') # ts)
     = map_option ((#) CHR ''%'') (decode_tokens ts)"
  by (rule decode_tokens_encoded) (simp_all add: uriReserved_and_hash_def)

lemma carried_tokens:
  assumes kept: "\<And>c. \<not> E c \<Longrightarrow> (of_char c :: nat) < 128"
    and plain: "\<And>c. E c \<Longrightarrow> (of_char c :: nat) < 128 \<Longrightarrow>
                  c \<notin> set url_syntax \<Longrightarrow>
                  c \<notin> set uriReserved_and_hash"
    and hex: "\<And>c. hex_digit c \<noteq> None \<Longrightarrow> \<not> E c"
  shows "carried s \<Longrightarrow>
           \<exists>ts. uri_tokens (encode_with E s) = Some ts \<and> decode_tokens ts = Some s"
proof (induction s rule: carried.induct)
  case 1
  show ?case by (simp add: encode_with_def)
next
  case (2 a s)
  let ?n = "utf8_length (of_char a)"
  consider (esc) "a = CHR ''%''" | (ascii) "a \<noteq> CHR ''%''" "?n = 0"
    | (multi) "a \<noteq> CHR ''%''" "?n \<noteq> 0"
    by blast
  then show ?case
  proof cases
    case esc
    with "2.prems" obtain h l rest where s: "s = h # l # rest"
      and r: "reserved_escape h l" and c: "carried rest"
      by (auto split: list.splits)
    from "2.IH"(1) [OF refl esc s refl c] obtain ts
      where ts: "uri_tokens (encode_with E rest) = Some ts" "decode_tokens ts = Some rest"
      by blast
    from r obtain b where b: "esc_byte (Esc h l) = Some b" "b < 128"
      "char_of b \<in> set uriReserved_and_hash" "hex_digit h \<noteq> None" "hex_digit l \<noteq> None"
      by (rule reserved_escapeD)
    then have k: "\<not> E h" "\<not> E l" "h \<noteq> CHR ''%''" "l \<noteq> CHR ''%''"
      using hex hex_digit_percent by auto
    show ?thesis
    proof (cases "E CHR ''%''")
      case True
      then have "encode_with E (a # s)
                   = percent_encode CHR ''%'' @ h # l # encode_with E rest"
        using k by (simp add: esc s encode_with_Cons)
      then have "uri_tokens (encode_with E (a # s))
                   = Some (Esc (hex_high CHR ''%'') (hex_low CHR ''%'') # Chr h # Chr l # ts)"
        using uri_tokens_escaped [of "[CHR ''%'']" "h # l # encode_with E rest"] k ts(1)
        by simp
      moreover have "decode_tokens (Esc (hex_high CHR ''%'') (hex_low CHR ''%'') # Chr h # Chr l # ts)
                       = Some (a # s)"
        using ts(2) by (simp add: decode_tokens_percent esc s)
      ultimately show ?thesis by blast
    next
      case False
      then have "encode_with E (a # s) = CHR ''%'' # h # l # encode_with E rest"
        using k by (simp add: esc s encode_with_Cons)
      then have "uri_tokens (encode_with E (a # s)) = Some (Esc h l # ts)"
        using b(4,5) ts(1) by simp
      moreover have "decode_tokens (Esc h l # ts) = Some (a # s)"
        using decode_tokens_ascii [OF b(1,2)] b(3) ts(2) by (simp add: esc s)
      ultimately show ?thesis by blast
    qed
  next
    case ascii
    with "2.prems" have a: "a \<notin> set url_syntax"
      and c: "carried s"
      by (simp_all add: Let_def)
    from "2.IH"(2) [OF refl ascii c] obtain ts
      where ts: "uri_tokens (encode_with E s) = Some ts" "decode_tokens ts = Some s"
      by blast
    from ascii(2) have small: "(of_char a :: nat) < 128"
      by (simp add: utf8_length_def split: if_splits)
    show ?thesis
    proof (cases "E a")
      case True
      then have "encode_with E (a # s) = percent_encode a @ encode_with E s"
        by (simp add: encode_with_Cons)
      then have "uri_tokens (encode_with E (a # s)) = Some (Esc (hex_high a) (hex_low a) # ts)"
        using uri_tokens_escaped [of "[a]" "encode_with E s"] ts(1) by simp
      moreover have "decode_tokens (Esc (hex_high a) (hex_low a) # ts) = Some (a # s)"
        using decode_tokens_encoded [OF small plain [OF True small a], of ts] ts(2)
        by simp
      ultimately show ?thesis by blast
    next
      case False
      then have "uri_tokens (encode_with E (a # s)) = Some (Chr a # ts)"
        using ascii(1) ts(1) by (simp add: encode_with_Cons)
      moreover have "decode_tokens (Chr a # ts) = Some (a # s)"
        using ts(2) by simp
      ultimately show ?thesis by blast
    qed
  next
    case multi
    with "2.prems" have n: "2 \<le> ?n" "?n \<le> 4" and len: "?n - 1 \<le> length s"
      and v: "valid_utf8 (map of_char (a # take (?n - 1) s))"
      and c: "carried (drop (?n - 1) s)"
      by (auto simp: Let_def split: if_splits)
    from n have not1: "\<not> (?n = 1 \<or> 4 < ?n)" by simp
    from "2.IH"(3) [OF refl multi not1 c] obtain ts
      where ts: "uri_tokens (encode_with E (drop (?n - 1) s)) = Some ts"
        "decode_tokens ts = Some (drop (?n - 1) s)"
      by blast
    let ?cs = "take (?n - 1) s"
    have "128 \<le> (of_char x :: nat)" if "x \<in> set (a # ?cs)" for x
      using valid_utf8_high [OF v, of "of_char x"] that by auto
    then have "list_all E (a # ?cs)"
      unfolding list_all_iff using kept by (metis not_less)
    then have "encode_with E (a # ?cs) = concat (map percent_encode (a # ?cs))"
      by (rule encode_with_all)
    moreover have "a # s = (a # ?cs) @ drop (?n - 1) s" by simp
    ultimately have "encode_with E (a # s)
        = concat (map percent_encode (a # ?cs)) @ encode_with E (drop (?n - 1) s)"
      by (metis encode_with_append)
    then have "uri_tokens (encode_with E (a # s))
        = Some (map (\<lambda>c. Esc (hex_high c) (hex_low c)) (a # ?cs) @ ts)"
      using uri_tokens_escaped [of "a # ?cs" "encode_with E (drop (?n - 1) s)"] ts(1)
      by simp
    moreover have "length ?cs = ?n - 1" using len by simp
    then have "decode_tokens (map (\<lambda>c. Esc (hex_high c) (hex_low c)) (a # ?cs) @ ts) = Some (a # s)"
      using decode_tokens_multibyte [OF refl n _ v, of ts] ts(2) by simp
    ultimately show ?thesis by blast
  qed
qed

lemma decodeURI_encode_with:
  assumes "\<And>c. \<not> E c \<Longrightarrow> (of_char c :: nat) < 128"
    and "\<And>c. E c \<Longrightarrow> (of_char c :: nat) < 128 \<Longrightarrow>
                  c \<notin> set url_syntax \<Longrightarrow>
                  c \<notin> set uriReserved_and_hash"
    and "\<And>c. hex_digit c \<noteq> None \<Longrightarrow> \<not> E c"
    and "carried s"
  shows "decodeURI (encode_with E s) = Some s"
  using carried_tokens [of E s] assms by (auto simp: decodeURI_def)

lemma carried_append: "carried x \<Longrightarrow> carried y \<Longrightarrow> carried (x @ y)"
proof (induction x rule: carried.induct)
  case 1
  then show ?case by simp
next
  case (2 a s)
  let ?n = "utf8_length (of_char a)"
  consider (esc) "a = CHR ''%''" | (ascii) "a \<noteq> CHR ''%''" "?n = 0"
    | (multi) "a \<noteq> CHR ''%''" "?n \<noteq> 0"
    by blast
  then show ?case
  proof cases
    case esc
    with "2.prems" obtain h l rest where s: "s = h # l # rest"
      and r: "reserved_escape h l" and c: "carried rest"
      by (auto split: list.splits)
    from "2.IH"(1) [OF refl esc s refl c "2.prems"(2)] r show ?thesis
      by (simp add: esc s)
  next
    case ascii
    with "2.prems" have a: "a \<notin> set url_syntax" and c: "carried s"
      by (simp_all add: Let_def)
    from "2.IH"(2) [OF refl ascii c "2.prems"(2)] a ascii show ?thesis
      by simp
  next
    case multi
    with "2.prems" have n: "2 \<le> ?n" "?n \<le> 4" and len: "?n - 1 \<le> length s"
      and v: "valid_utf8 (map of_char (a # take (?n - 1) s))"
      and c: "carried (drop (?n - 1) s)"
      by (auto simp: Let_def split: if_splits)
    from n have not1: "\<not> (?n = 1 \<or> 4 < ?n)" by simp
    from "2.IH"(3) [OF refl multi not1 c "2.prems"(2)] n len v multi show ?thesis
      by (simp add: Let_def)
  qed
qed

lemma hex_digit_ascii: "hex_digit c \<noteq> None \<Longrightarrow> (of_char c :: nat) < 128"
  by (simp add: hex_digit_def Let_def split: if_splits)

lemma url_syntax_ascii:
  assumes "c \<in> set url_syntax"
  shows "(of_char c :: nat) < 128" and "hex_digit c = None"
proof -
  have "list_all (\<lambda>c. (of_char c :: nat) < 128 \<and> hex_digit c = None) url_syntax"
    by code_simp
  with assms show "(of_char c :: nat) < 128" and "hex_digit c = None"
    unfolding list_all_iff by blast+
qed

lemma carried_chars: "carried s \<Longrightarrow> c \<in> set s \<Longrightarrow> c \<notin> set url_syntax"
proof (induction s rule: carried.induct)
  case 1
  then show ?case by simp
next
  case (2 a s)
  let ?n = "utf8_length (of_char a)"
  consider (esc) "a = CHR ''%''" | (ascii) "a \<noteq> CHR ''%''" "?n = 0"
    | (multi) "a \<noteq> CHR ''%''" "?n \<noteq> 0"
    by blast
  then show ?case
  proof cases
    case esc
    with "2.prems" obtain h l rest where s: "s = h # l # rest"
      and r: "reserved_escape h l" and c: "carried rest"
      by (auto split: list.splits)
    from r have "hex_digit h \<noteq> None" "hex_digit l \<noteq> None"
      by (auto elim: reserved_escapeD)
    then have "h \<notin> set url_syntax" "l \<notin> set url_syntax"
      using url_syntax_ascii(2) [of h] url_syntax_ascii(2) [of l] by auto
    moreover have "a \<notin> set url_syntax"
      by (simp add: esc url_syntax_def)
    moreover have "c = a \<or> c = h \<or> c = l \<or> c \<in> set rest"
      using "2.prems"(2) by (simp add: s)
    ultimately show ?thesis
      using "2.IH"(1) [OF refl esc s refl c] by blast
  next
    case ascii
    with "2.prems" have a: "a \<notin> set url_syntax" and c: "carried s"
      by (simp_all add: Let_def)
    moreover have "c = a \<or> c \<in> set s"
      using "2.prems"(2) by simp
    ultimately show ?thesis
      using "2.IH"(2) [OF refl ascii c] by blast
  next
    case multi
    with "2.prems" have n: "2 \<le> ?n" "?n \<le> 4" and len: "?n - 1 \<le> length s"
      and v: "valid_utf8 (map of_char (a # take (?n - 1) s))"
      and c: "carried (drop (?n - 1) s)"
      by (auto simp: Let_def split: if_splits)
    from n have not1: "\<not> (?n = 1 \<or> 4 < ?n)" by simp
    have "set s = set (take (?n - 1) s) \<union> set (drop (?n - 1) s)"
      by (metis append_take_drop_id set_append)
    then have "c \<in> set (a # take (?n - 1) s) \<or> c \<in> set (drop (?n - 1) s)"
      using "2.prems"(2) by auto
    then show ?thesis
    proof
      assume "c \<in> set (a # take (?n - 1) s)"
      then have "(of_char c :: nat) \<in> set (map of_char (a # take (?n - 1) s))"
        unfolding set_map by (rule imageI)
      then have "128 \<le> (of_char c :: nat)"
        by (rule valid_utf8_high [OF v])
      then show ?thesis using url_syntax_ascii(1) [of c] by fastforce
    next
      assume "c \<in> set (drop (?n - 1) s)"
      then show ?thesis by (rule "2.IH"(3) [OF refl multi not1 c])
    qed
  qed
qed

lemma hex_chars: "hex_digit c \<noteq> None \<Longrightarrow> c \<in> set ''0123456789ABCDEFabcdef''"
proof -
  have mem: "n \<in> set [48, 49, 50, 51, 52, 53, 54, 55, 56, 57, 65, 66, 67, 68, 69, 70,
                        97, 98, 99, 100, 101, 102 :: nat]"
    if "n \<in> {48..<58} \<union> {65..<71} \<union> {97..<103}" for n
    using that by (auto simp: atLeastLessThan_nat_numeral)
  have codes: "map of_char ''0123456789ABCDEFabcdef''
                 = [48, 49, 50, 51, 52, 53, 54, 55, 56, 57, 65, 66, 67, 68, 69, 70,
                    97, 98, 99, 100, 101, 102 :: nat]"
    by simp
  assume "hex_digit c \<noteq> None"
  then have "(of_char c :: nat) \<in> {48..<58} \<union> {65..<71} \<union> {97..<103}"
    by (auto simp: hex_digit_def Let_def split: if_splits)
  then have "(of_char c :: nat) \<in> set (map of_char ''0123456789ABCDEFabcdef'')"
    unfolding codes by (rule mem)
  then obtain d where "d \<in> set ''0123456789ABCDEFabcdef''" and "(of_char c :: nat) = of_char d"
    unfolding set_map by (rule imageE)
  then show ?thesis by (simp only: of_char_eq_iff)
qed

lemma hex_clean: "hex_digit c \<noteq> None \<Longrightarrow> clean c \<and> c \<in> set uriUnescaped"
proof -
  have "list_all (\<lambda>c. clean c \<and> c \<in> set uriUnescaped) ''0123456789ABCDEFabcdef''"
    by code_simp
  then show "hex_digit c \<noteq> None \<Longrightarrow> ?thesis"
    unfolding list_all_iff using hex_chars by blast
qed

lemma percent_clean: "clean CHR ''%''"
  by code_simp

lemma unescaped_facts:
  assumes "c \<in> set uriUnescaped"
  shows "(of_char c :: nat) < 128" and "c \<noteq> CHR ''%''"
    and "c \<notin> set url_syntax \<Longrightarrow> c \<noteq> CHR ''/'' \<Longrightarrow> clean c"
proof -
  have "list_all (\<lambda>c. (of_char c :: nat) < 128 \<and> c \<noteq> CHR ''%''
                      \<and> (c \<in> set url_syntax \<or> c = CHR ''/'' \<or> clean c)) uriUnescaped"
    by code_simp
  with assms show "(of_char c :: nat) < 128" and "c \<noteq> CHR ''%''"
    and "c \<notin> set url_syntax \<Longrightarrow> c \<noteq> CHR ''/'' \<Longrightarrow> clean c"
    unfolding list_all_iff by blast+
qed

lemma reserved_facts:
  assumes "c \<in> set uriReserved_and_hash"
  shows "c \<in> set uriUnescaped" and "path_set c \<Longrightarrow> c \<in> set url_syntax"
proof -
  have "list_all (\<lambda>c. c \<in> set url_syntax \<or> \<not> path_set c) uriReserved_and_hash"
    by code_simp
  with assms show "path_set c \<Longrightarrow> c \<in> set url_syntax"
    unfolding list_all_iff by blast
  from assms show "c \<in> set uriUnescaped" by (simp add: uriUnescaped_def)
qed

lemma path_set_high: "\<not> path_set c \<Longrightarrow> (of_char c :: nat) < 128"
  by (simp add: path_set_def query_set_def c0_control_set_def)

lemma decodeURI_path: "carried s \<Longrightarrow> decodeURI (encode_with path_set s) = Some s"
proof (rule decodeURI_encode_with)
  show "\<not> path_set c \<Longrightarrow> (of_char c :: nat) < 128" for c by (rule path_set_high)
  show "path_set c \<Longrightarrow> (of_char c :: nat) < 128 \<Longrightarrow> c \<notin> set url_syntax \<Longrightarrow>
          c \<notin> set uriReserved_and_hash" for c
    using reserved_facts(2) by blast
  show "hex_digit c \<noteq> None \<Longrightarrow> \<not> path_set c" for c
    using hex_clean [of c] by (simp add: clean_def)
qed

lemma encodeURI_encode_with: "encodeURI s = encode_with (\<lambda>c. c \<notin> set uriUnescaped) s"
  by (induction s) (simp_all add: encodeURI_def encode_with_def)

lemma decodeURI_encodeURI: "carried s \<Longrightarrow> decodeURI (encodeURI s) = Some s"
  unfolding encodeURI_encode_with
proof (rule decodeURI_encode_with)
  show "\<not> c \<notin> set uriUnescaped \<Longrightarrow> (of_char c :: nat) < 128" for c
    using unescaped_facts(1) by blast
  show "c \<notin> set uriUnescaped \<Longrightarrow> (of_char c :: nat) < 128 \<Longrightarrow> c \<notin> set url_syntax \<Longrightarrow>
          c \<notin> set uriReserved_and_hash" for c
    using reserved_facts(1) by blast
  show "hex_digit c \<noteq> None \<Longrightarrow> \<not> c \<notin> set uriUnescaped" for c
    using hex_clean [of c] by simp
qed

text \<open>
  The URL parser on a path whose segments are carried, and on the encoded form of it.
\<close>

lemma encodeURI_Cons:
  "encodeURI (c # s) = (if c \<in> set uriUnescaped then [c] else [CHR ''%'', hex_high c, hex_low c]) @ encodeURI s"
  by (simp add: encodeURI_def percent_encode_digits)

lemma encodeURI_Nil: "encodeURI [] = []"
  by (simp add: encodeURI_def)

lemma encodeURI_append: "encodeURI (x @ y) = encodeURI x @ encodeURI y"
  by (simp add: encodeURI_def)

lemma encodeURI_empty: "encodeURI s = [] \<longleftrightarrow> s = []"
  by (cases s) (simp_all add: encodeURI_Cons encodeURI_Nil)

lemma hex_digits_clean: "clean (hex_high c)" "clean (hex_low c)"
  using hex_clean [of "hex_high c"] hex_clean [of "hex_low c"] by (simp_all add: hex_digits)

lemma encodeURI_clean:
  "\<forall>c \<in> set s. c \<notin> set url_syntax \<and> c \<noteq> CHR ''/'' \<Longrightarrow> list_all clean (encodeURI s)"
proof (induction s)
  case Nil
  show ?case by (simp add: encodeURI_Nil)
next
  case (Cons c s)
  then have "list_all clean (encodeURI s)" by simp
  moreover have "list_all clean (if c \<in> set uriUnescaped then [c] else [CHR ''%'', hex_high c, hex_low c])"
    using Cons.prems unescaped_facts(3) [of c] by (simp add: percent_clean hex_digits_clean)
  ultimately show ?case by (simp only: encodeURI_Cons list_all_append)
qed

lemma carried_segment_chars:
  assumes "carried_segment s" and "c \<in> set s"
  shows "c \<notin> set url_syntax" and "c \<noteq> CHR ''/''" and "\<not> is_separator c"
proof -
  from assms show a: "c \<notin> set url_syntax"
    using carried_chars [of s c] by (simp add: carried_segment_def)
  from assms show b: "c \<noteq> CHR ''/''" by (auto simp: carried_segment_def)
  from a b show "\<not> is_separator c" by (auto simp: is_separator_def url_syntax_def)
qed

lemma clean_facts:
  assumes "clean c"
  shows "\<not> path_set c" and "\<not> is_separator c" and "\<not> tab_or_newline c"
    and "c \<noteq> CHR ''?''" and "c \<noteq> CHR ''#''" and "c \<noteq> CHR ''/''"
  using assms by (auto simp: clean_def is_separator_def tab_or_newline_def url_syntax_def)

lemma encode_with_id: "list_all (\<lambda>c. \<not> E c) s \<Longrightarrow> encode_with E s = s"
  by (induction s) (simp_all add: encode_with_def)

lemma posix_path_Cons: "posix_path (x # xs) = CHR ''/'' # x @ posix_path xs"
  by (simp add: posix_path_def)

lemma posix_path_Nil: "posix_path [] = []"
  by (simp add: posix_path_def)

lemma slash_unescaped: "CHR ''/'' \<in> set uriUnescaped" "\<not> path_set CHR ''/''"
  by code_simp+

lemma encodeURI_posix_path: "encodeURI (posix_path segs) = posix_path (map encodeURI segs)"
  by (induction segs)
     (simp_all add: posix_path_Cons posix_path_Nil encodeURI_Nil encodeURI_Cons encodeURI_append
        slash_unescaped)

lemma encode_with_posix_path:
  "encode_with path_set (posix_path segs) = posix_path (map (encode_with path_set) segs)"
  by (induction segs)
     (simp_all add: posix_path_Cons posix_path_Nil encode_with_Cons encode_with_append
        slash_unescaped, simp add: encode_with_def)

lemma hex_digit_lower: "hex_digit (lower_ascii c) = hex_digit c"
  by (simp add: hex_digit_def lower_ascii_def Let_def)

lemma lower_ascii_fix:
  "lower_ascii c = x \<Longrightarrow> (of_char x :: nat) < 97 \<or> 122 < (of_char x :: nat) \<Longrightarrow> c = x"
  by (auto simp: lower_ascii_def split: if_splits)

lemma lower_ascii_marks:
  "lower_ascii c = CHR ''.'' \<Longrightarrow> c = CHR ''.''"
  "lower_ascii c = CHR ''%'' \<Longrightarrow> c = CHR ''%''"
  by (auto dest: lower_ascii_fix)

lemma dot_escape:
  assumes "lower_ascii y = CHR ''2''" and "lower_ascii z = CHR ''e''"
  shows "esc_byte (Esc y z) = Some 46"
proof -
  have "hex_digit y = hex_digit CHR ''2''" "hex_digit z = hex_digit CHR ''e''"
    using hex_digit_lower [of y] hex_digit_lower [of z] assms by simp_all
  moreover have "hex_digit CHR ''2'' = Some 2" "hex_digit CHR ''e'' = Some 14"
    by code_simp+
  ultimately show ?thesis by simp
qed

lemma dot_not_reserved: "char_of (46 :: nat) \<notin> set uriReserved_and_hash"
  by code_simp

lemma dot_escape_not_carried:
  "lower_ascii y = CHR ''2'' \<Longrightarrow> lower_ascii z = CHR ''e'' \<Longrightarrow> \<not> carried (CHR ''%'' # y # z # t)"
  using dot_not_reserved by (simp add: reserved_escape_def dot_escape del: esc_byte.simps)

lemma dot_carried: "carried (CHR ''.'' # t) = carried t"
  by (simp add: utf8_length_def url_syntax_def)

lemma carried_no_dots:
  assumes "carried s" and "s \<noteq> ''.''" and "s \<noteq> ''..''"
  shows "\<not> single_dot s" and "\<not> double_dot s"
proof -
  show "\<not> single_dot s"
  proof
    assume "single_dot s"
    then consider "map lower_ascii s = ''.''" | "map lower_ascii s = ''%2e''"
      by (auto simp: single_dot_def)
    then show False
    proof cases
      case 1
      with assms(2) show False by (auto simp: map_eq_Cons_conv dest: lower_ascii_marks)
    next
      case 2
      then obtain x y z where "s = [x, y, z]" "lower_ascii x = CHR ''%''"
        "lower_ascii y = CHR ''2''" "lower_ascii z = CHR ''e''"
        by (auto simp: map_eq_Cons_conv)
      with assms(1) show False
        using dot_escape_not_carried [of y z "[]"] by (auto dest: lower_ascii_marks)
    qed
  qed
  show "\<not> double_dot s"
  proof
    assume "double_dot s"
    then consider "map lower_ascii s = ''..''" | "map lower_ascii s = ''.%2e''"
      | "map lower_ascii s = ''%2e.''" | "map lower_ascii s = ''%2e%2e''"
      by (auto simp: double_dot_def)
    then show False
    proof cases
      case 1
      with assms(3) show False by (auto simp: map_eq_Cons_conv dest: lower_ascii_marks)
    next
      case 2
      then obtain w x y z where "s = [w, x, y, z]" "lower_ascii w = CHR ''.''"
        "lower_ascii x = CHR ''%''" "lower_ascii y = CHR ''2''" "lower_ascii z = CHR ''e''"
        by (auto simp: map_eq_Cons_conv)
      then have "s = CHR ''.'' # CHR ''%'' # y # z # []" and "\<not> carried (CHR ''%'' # y # z # [])"
        using dot_escape_not_carried [of y z "[]"] by (auto dest: lower_ascii_marks)
      with assms(1) show False by (simp only: dot_carried)
    next
      case 3
      then obtain x y z t where "s = x # y # z # t" "lower_ascii x = CHR ''%''"
        "lower_ascii y = CHR ''2''" "lower_ascii z = CHR ''e''"
        by (auto simp: map_eq_Cons_conv)
      with assms(1) show False
        using dot_escape_not_carried [of y z t] by (auto dest: lower_ascii_marks)
    next
      case 4
      then obtain x y z t where "s = x # y # z # t" "lower_ascii x = CHR ''%''"
        "lower_ascii y = CHR ''2''" "lower_ascii z = CHR ''e''"
        by (auto simp: map_eq_Cons_conv)
      with assms(1) show False
        using dot_escape_not_carried [of y z t] by (auto dest: lower_ascii_marks)
    qed
  qed
qed

lemma escaped_not_dot:
  assumes "c \<notin> set uriUnescaped"
  shows "\<not> (lower_ascii (hex_high c) = CHR ''2'' \<and> lower_ascii (hex_low c) = CHR ''e'')"
proof
  assume "lower_ascii (hex_high c) = CHR ''2'' \<and> lower_ascii (hex_low c) = CHR ''e''"
  then have "esc_byte (Esc (hex_high c) (hex_low c)) = Some 46" by (simp only: dot_escape)
  with hex_digits(3) [of c] have "(of_char c :: nat) = 46" by (simp only: option.inject)
  then have "(of_char c :: nat) = of_char CHR ''.''" by simp
  then have "c = CHR ''.''" by (simp only: of_char_eq_iff)
  with assms show False by (simp add: uriUnescaped_def)
qed

lemma lower_percent: "lower_ascii CHR ''%'' = CHR ''%''"
  by code_simp

lemma encoded_single_dot:
  assumes "single_dot (encodeURI s)"
  shows "s = ''.''"
proof (cases s)
  case Nil
  with assms show ?thesis by (simp add: encodeURI_Nil single_dot_def)
next
  case (Cons c t)
  show ?thesis
  proof (cases "c \<in> set uriUnescaped")
    case True
    then have "encodeURI s = c # encodeURI t" by (simp add: Cons encodeURI_Cons)
    with assms have "lower_ascii c = CHR ''.'' \<and> encodeURI t = [] \<or> lower_ascii c = CHR ''%''"
      by (auto simp: single_dot_def)
    with True show ?thesis
      using unescaped_facts(2) [of c] by (auto simp: Cons encodeURI_empty dest: lower_ascii_marks)
  next
    case False
    then have "encodeURI s = CHR ''%'' # hex_high c # hex_low c # encodeURI t"
      by (simp add: Cons encodeURI_Cons)
    with assms have "lower_ascii (hex_high c) = CHR ''2'' \<and> lower_ascii (hex_low c) = CHR ''e''"
      by (auto simp: single_dot_def lower_percent)
    with False show ?thesis using escaped_not_dot by blast
  qed
qed

lemma encoded_double_dot:
  assumes "double_dot (encodeURI s)"
  shows "s = ''..''"
proof (cases s)
  case Nil
  with assms show ?thesis by (simp add: encodeURI_Nil double_dot_def)
next
  case (Cons c t)
  show ?thesis
  proof (cases "c \<in> set uriUnescaped")
    case True
    then have "encodeURI s = c # encodeURI t" by (simp add: Cons encodeURI_Cons)
    with assms have "lower_ascii c = CHR ''.'' \<and> single_dot (encodeURI t) \<or> lower_ascii c = CHR ''%''"
      by (auto simp: double_dot_def single_dot_def)
    with True show ?thesis
      using unescaped_facts(2) [of c] encoded_single_dot [of t]
      by (auto simp: Cons dest: lower_ascii_marks)
  next
    case False
    then have "encodeURI s = CHR ''%'' # hex_high c # hex_low c # encodeURI t"
      by (simp add: Cons encodeURI_Cons)
    with assms have "lower_ascii (hex_high c) = CHR ''2'' \<and> lower_ascii (hex_low c) = CHR ''e''"
      by (auto simp: double_dot_def lower_percent)
    with False show ?thesis using escaped_not_dot by blast
  qed
qed

lemma split_on_nonempty: "split_on sep s \<noteq> []"
  by (induction s) (auto split: list.splits)

lemma split_on_append:
  "list_all (\<lambda>c. \<not> sep c) x \<Longrightarrow>
     split_on sep (x @ t) = (x @ hd (split_on sep t)) # tl (split_on sep t)"
proof (induction x)
  case Nil
  then show ?case using split_on_nonempty [of sep t] by simp
next
  case (Cons c x)
  then show ?case by simp
qed

lemma split_on_posix_path:
  "sep CHR ''/'' \<Longrightarrow> list_all (list_all (\<lambda>c. \<not> sep c)) ss \<Longrightarrow>
     split_on sep (posix_path ss) = [] # ss"
proof (induction ss)
  case Nil
  show ?case by (simp add: posix_path_def)
next
  case (Cons x xs)
  then have "split_on sep (x @ posix_path xs) = x # xs"
    by (simp add: split_on_append)
  with Cons.prems(1) show ?case by (simp add: posix_path_Cons)
qed

lemma split_on_segments:
  assumes "sep CHR ''/''" and "list_all (list_all (\<lambda>c. \<not> sep c)) (x # xs)"
  shows "split_on sep (x @ posix_path xs) = x # xs"
  using assms by (simp add: split_on_append split_on_posix_path)

lemma path_state_segments:
  "list_all (\<lambda>s. \<not> single_dot s \<and> \<not> double_dot s) ss \<Longrightarrow>
     path_state acc ss = acc @ map (encode_with path_set) ss"
  by (induction ss arbitrary: acc) simp_all

lemma serialize_posix_path: "serialize_path segs = posix_path segs"
  by (simp add: serialize_path_def posix_path_def)

lemma parse_path_segments:
  assumes "list_all (list_all (\<lambda>c. \<not> is_separator c)) (x # xs)"
    and "list_all (\<lambda>s. \<not> single_dot s \<and> \<not> double_dot s) (x # xs)"
  shows "parse_path (x @ posix_path xs) = posix_path (map (encode_with path_set) (x # xs))"
proof -
  have "is_separator CHR ''/''" by (simp add: is_separator_def)
  then have "split_on is_separator (x @ posix_path xs) = x # xs"
    using assms(1) by (rule split_on_segments)
  moreover have "path_state [] (x # xs) = map (encode_with path_set) (x # xs)"
    using path_state_segments [OF assms(2), of "[]"] by simp
  ultimately show ?thesis
    by (simp only: parse_path_def serialize_posix_path)
qed

lemma url_syntax_facts:
  assumes "c \<notin> set url_syntax"
  shows "\<not> tab_or_newline c" and "c \<noteq> CHR ''?''" and "c \<noteq> CHR ''#''" and "c \<noteq> CHR 0x5C"
  using assms by (auto simp: url_syntax_def tab_or_newline_def)

lemma dropWhile_keep: "s \<noteq> [] \<Longrightarrow> \<not> P (hd s) \<Longrightarrow> dropWhile P s = s"
  by (cases s) simp_all

lemma trim_keep:
  assumes "s \<noteq> []" and "\<not> c0_or_space (hd s)" and "\<not> c0_or_space (last s)"
  shows "rev (dropWhile c0_or_space (rev (dropWhile c0_or_space s))) = s"
proof -
  from assms(1,2) have "dropWhile c0_or_space s = s" by (rule dropWhile_keep)
  moreover from assms(1,3) have "dropWhile c0_or_space (rev s) = rev s"
    by (intro dropWhile_keep) (simp_all add: hd_rev)
  ultimately show ?thesis by simp
qed

lemma slash_not_space: "\<not> c0_or_space CHR ''/''"
  by (simp add: c0_or_space_def)

lemma has_scheme_slash: "\<not> has_scheme (CHR ''/'' # s)"
  by (simp add: has_scheme_def lower_ascii_def)

lemma URL_new_relative:
  assumes "\<not> is_separator d" and "\<forall>c \<in> set (d # cs). c \<notin> set url_syntax"
    and "\<not> c0_or_space (last (d # cs))"
  shows "whatwg_URL_new (CHR ''/'' # d # cs)
           = Inr \<lparr>url_origin = example_com, url_pathname = parse_path (d # cs),
                  url_query = None, url_fragment = None\<rparr>"
proof -
  let ?s = "CHR ''/'' # d # cs"
  have chars: "c \<notin> set url_syntax" if "c \<in> set ?s" for c
    using that assms(2) by (auto simp: url_syntax_def)
  have "rev (dropWhile c0_or_space (rev (dropWhile c0_or_space ?s))) = ?s"
    using assms(3) by (intro trim_keep) (simp_all add: slash_not_space)
  moreover have "filter (\<lambda>c. \<not> tab_or_newline c) ?s = ?s"
    unfolding filter_id_conv using chars url_syntax_facts(1) by blast
  moreover have "takeWhile (\<lambda>c. c \<noteq> CHR ''?'' \<and> c \<noteq> CHR ''#'') ?s = ?s"
    unfolding takeWhile_eq_all_conv using chars url_syntax_facts(2,3) by blast
  moreover have "dropWhile (\<lambda>c. c \<noteq> CHR ''?'' \<and> c \<noteq> CHR ''#'') ?s = []"
    unfolding dropWhile_eq_Nil_conv using chars url_syntax_facts(2,3) by blast
  moreover have "is_separator CHR ''/''" by (simp add: is_separator_def)
  ultimately show ?thesis
    using assms(1) has_scheme_slash [of "d # cs"]
    by (simp only: whatwg_URL_new_def Let_def) (simp add: parse_query_fragment_def)
qed

lemma carried_segment_parts:
  assumes "carried_segment s"
  shows "list_all (\<lambda>c. \<not> is_separator c) s" and "\<not> single_dot s \<and> \<not> double_dot s"
    and "\<forall>c \<in> set s. c \<notin> set url_syntax \<and> c \<noteq> CHR ''/''"
    and "carried s" and "s \<noteq> []"
proof -
  show "list_all (\<lambda>c. \<not> is_separator c) s"
    unfolding list_all_iff using carried_segment_chars(3) [OF assms] by blast
  show "\<not> single_dot s \<and> \<not> double_dot s"
    using assms carried_no_dots [of s] by (simp add: carried_segment_def)
  show "\<forall>c \<in> set s. c \<notin> set url_syntax \<and> c \<noteq> CHR ''/''"
    using carried_segment_chars(1,2) [OF assms] by blast
  show "carried s" "s \<noteq> []" using assms by (simp_all add: carried_segment_def)
qed

lemma encoded_segment:
  assumes "carried_segment s"
  shows "list_all clean (encodeURI s)" and "list_all (\<lambda>c. \<not> is_separator c) (encodeURI s)"
    and "\<not> single_dot (encodeURI s) \<and> \<not> double_dot (encodeURI s)"
    and "encode_with path_set (encodeURI s) = encodeURI s"
    and "encodeURI s \<noteq> []"
proof -
  show c: "list_all clean (encodeURI s)"
    using carried_segment_parts(3) [OF assms] by (rule encodeURI_clean)
  then show "list_all (\<lambda>c. \<not> is_separator c) (encodeURI s)"
    unfolding list_all_iff using clean_facts(2) by blast
  show "\<not> single_dot (encodeURI s) \<and> \<not> double_dot (encodeURI s)"
    using assms encoded_single_dot [of s] encoded_double_dot [of s]
    by (auto simp: carried_segment_def)
  from c have "list_all (\<lambda>c. \<not> path_set c) (encodeURI s)"
    unfolding list_all_iff using clean_facts(1) by blast
  then show "encode_with path_set (encodeURI s) = encodeURI s" by (rule encode_with_id)
  show "encodeURI s \<noteq> []"
    using assms by (simp add: encodeURI_empty carried_segment_def)
qed

lemma carried_posix_path: "list_all carried_segment segs \<Longrightarrow> carried (posix_path segs)"
proof (induction segs)
  case Nil
  show ?case by (simp add: posix_path_Nil)
next
  case (Cons x xs)
  have "carried ''/''" by code_simp
  moreover from Cons have "carried (x @ posix_path xs)"
    by (simp add: carried_append carried_segment_def)
  ultimately have "carried (''/'' @ x @ posix_path xs)" by (rule carried_append)
  then show ?case by (simp add: posix_path_Cons)
qed

lemma posix_path_chars:
  assumes "list_all carried_segment segs" and "c \<in> set (posix_path segs)"
  shows "c \<notin> set url_syntax"
  using carried_chars [OF carried_posix_path [OF assms(1)] assms(2)] .

lemma encoded_path_clean:
  assumes "list_all carried_segment segs" and "c \<in> set (encodeURI (posix_path segs))"
  shows "clean c \<or> c = CHR ''/''"
  using assms
proof (induction segs)
  case Nil
  then show ?case by (simp add: posix_path_Nil encodeURI_Nil)
next
  case (Cons x xs)
  from Cons.prems(2) have "c = CHR ''/'' \<or> c \<in> set (encodeURI x)
      \<or> c \<in> set (encodeURI (posix_path xs))"
    by (simp add: posix_path_Cons encodeURI_Cons encodeURI_append slash_unescaped)
  moreover from Cons.prems(1) have "list_all clean (encodeURI x)"
    by (simp add: encoded_segment(1))
  ultimately show ?case using Cons by (auto simp: list_all_iff)
qed

lemma set_pathname_carried:
  assumes "list_all carried_segment segs" and "segs \<noteq> []"
  shows "url_pathname (whatwg_URL_set_pathname u (encodeURI (posix_path segs)))
           = encodeURI (posix_path segs)"
    and "url_pathname (whatwg_URL_set_pathname u (encodeURI (tl (posix_path segs))))
           = encodeURI (posix_path segs)"
proof -
  from assms obtain x xs where segs: "segs = x # xs" by (cases segs) auto
  let ?es = "map encodeURI segs"
  have sep: "list_all (list_all (\<lambda>c. \<not> is_separator c)) ?es"
    using assms(1) by (induction segs) (simp_all add: encoded_segment(2))
  have dots: "list_all (\<lambda>s. \<not> single_dot s \<and> \<not> double_dot s) ?es"
    using assms(1) by (induction segs) (simp_all add: encoded_segment(3))
  have same: "map (encode_with path_set) ?es = ?es"
    using assms(1) by (induction segs) (simp_all add: encoded_segment(4))
  have es: "?es = encodeURI x # map encodeURI xs" by (simp add: segs)
  have "parse_path (encodeURI x @ posix_path (map encodeURI xs))
          = posix_path (map (encode_with path_set) ?es)"
    using sep dots unfolding es by (rule parse_path_segments)
  then have parsed: "parse_path (encodeURI x @ posix_path (map encodeURI xs))
                  = encodeURI (posix_path segs)"
    by (simp only: same encodeURI_posix_path)
  have "posix_path ?es = CHR ''/'' # encodeURI x @ posix_path (map encodeURI xs)"
    by (simp add: es posix_path_Cons)
  then have whole: "encodeURI (posix_path segs)
                 = CHR ''/'' # encodeURI x @ posix_path (map encodeURI xs)"
    by (simp only: encodeURI_posix_path)
  have "encodeURI (posix_path xs) = posix_path (map encodeURI xs)"
    by (rule encodeURI_posix_path)
  moreover have "tl (posix_path segs) = x @ posix_path xs"
    by (simp add: segs posix_path_Cons)
  ultimately have rest: "encodeURI (tl (posix_path segs))
                 = encodeURI x @ posix_path (map encodeURI xs)"
    by (simp only: encodeURI_append)
  have keep: "filter (\<lambda>c. \<not> tab_or_newline c) (encodeURI (posix_path segs))
                = encodeURI (posix_path segs)"
    unfolding filter_id_conv
    using encoded_path_clean [OF assms(1)] clean_facts(3) by (auto simp: tab_or_newline_def)
  then have keep': "filter (\<lambda>c. \<not> tab_or_newline c)
                      (encodeURI x @ posix_path (map encodeURI xs))
                    = encodeURI x @ posix_path (map encodeURI xs)"
    by (simp add: whole tab_or_newline_def)
  have slash: "is_separator CHR ''/''" by (simp add: is_separator_def)
  show "url_pathname (whatwg_URL_set_pathname u (encodeURI (posix_path segs)))
          = encodeURI (posix_path segs)"
    unfolding whatwg_URL_set_pathname_def keep Let_def
    by (simp add: whole slash) (simp add: parsed [unfolded whole])
  from assms(1) have "encodeURI x \<noteq> []" "list_all (\<lambda>c. \<not> is_separator c) (encodeURI x)"
    by (simp_all add: segs encoded_segment)
  then obtain d y where x: "encodeURI x = d # y" and d: "\<not> is_separator d"
    by (cases "encodeURI x") auto
  show "url_pathname (whatwg_URL_set_pathname u (encodeURI (tl (posix_path segs))))
          = encodeURI (posix_path segs)"
    unfolding whatwg_URL_set_pathname_def rest keep' Let_def
    using parsed d by (simp add: x)
qed

text \<open>
  The file server's side, and the stage as a whole.
\<close>

lemma normalize_segments_names:
  "list_all (\<lambda>s. s \<noteq> [] \<and> s \<noteq> ''.'' \<and> s \<noteq> ''..'') ss \<Longrightarrow>
     normalize_segments up acc ss = acc @ ss"
  by (induction ss arbitrary: acc) simp_all

lemma join_posix_path: "segs \<noteq> [] \<Longrightarrow> CHR ''/'' # join_with ''/'' segs = posix_path segs"
proof (cases segs)
  case Nil
  then show "segs \<noteq> [] \<Longrightarrow> ?thesis" by simp
next
  case (Cons x xs)
  have "concat (map ((@) ''/'') xs) = posix_path xs"
    by (induction xs) (simp_all add: posix_path_def)
  then show ?thesis by (simp add: Cons join_with_def posix_path_Cons)
qed

lemma posix_resolve_carried:
  assumes "list_all carried_segment segs" and "segs \<noteq> []"
  shows "posix_resolve ''/'' (removeLeadingSlash (posix_path segs)) = posix_path segs"
proof -
  from assms obtain x xs where segs: "segs = x # xs" by (cases segs) auto
  with assms(1) have "x \<noteq> []" "CHR ''/'' \<notin> set x" by (simp_all add: carried_segment_def)
  then obtain d y where x: "x = d # y" "d \<noteq> CHR ''/''" by (cases x) auto
  have rel: "removeLeadingSlash (posix_path segs) = d # y @ posix_path xs"
    by (simp add: segs x removeLeadingSlash_def posix_path_Cons)
  have joined: "''/'' @ ''/'' @ d # y @ posix_path xs = posix_path ([] # segs)"
    by (simp add: segs x posix_path_Cons)
  have "list_all (list_all (\<lambda>c. \<not> c = CHR ''/'')) ([] # segs)"
    using assms(1) by (induction segs) (auto simp: carried_segment_def list_all_iff)
  then have split: "split_on (\<lambda>c. c = CHR ''/'') (posix_path ([] # segs)) = [] # [] # segs"
    by (intro split_on_posix_path) simp_all
  have "list_all (\<lambda>s. s \<noteq> [] \<and> s \<noteq> ''.'' \<and> s \<noteq> ''..'') segs"
    using assms(1) by (induction segs) (simp_all add: carried_segment_def)
  then have "normalize_segments False [] ([] # [] # segs) = segs"
    by (simp add: normalize_segments_names)
  with split show ?thesis
    unfolding posix_resolve_def rel Let_def
    using x(2) assms(2) by (simp only: joined list.sel if_False list.distinct simp_thms)
      (simp add: join_posix_path)
qed

lemma slice_units_fs: "slice_units (length FS_PREFIX) (FS_PREFIX @ r) = Some r"
  by (simp add: FS_PREFIX_def utf8_length_def)

lemma fs_segment:
  "list_all (\<lambda>c. \<not> is_separator c) ''@fs''" "\<not> single_dot ''@fs'' \<and> \<not> double_dot ''@fs''"
  "carried ''/@fs''" "\<forall>c \<in> set ''@fs''. c \<notin> set url_syntax" "\<not> is_separator CHR ''@''"
  by code_simp+

lemma raw_fs_request_segments:
  assumes sep: "list_all (list_all (\<lambda>c. \<not> is_separator c)) ss"
    and dots: "list_all (\<lambda>s. \<not> single_dot s \<and> \<not> double_dot s) ss"
    and car: "carried (posix_path ss)"
    and ne: "ss \<noteq> []"
    and last: "\<not> c0_or_space (last (posix_path ss))"
  shows "raw_fs_request (node_env w files) (''/@fs'' @ posix_path ss)
           = Inr (Some (url_pathname
                (whatwg_URL_set_pathname
                   \<lparr>url_origin = example_com,
                      url_pathname = encode_with path_set (''/@fs'' @ posix_path ss),
                      url_query = None, url_fragment = None\<rparr>
                   (encodeURI (if w then strip_drive (tl (posix_path ss))
                               else tl (posix_path ss))))))"
proof -
  let ?in = "''/@fs'' @ posix_path ss"
  let ?u = "\<lparr>url_origin = example_com, url_pathname = encode_with path_set ?in,
             url_query = None, url_fragment = None\<rparr>"
  from ne obtain x xs where ss: "ss = x # xs" by (cases ss) auto
  have path: "posix_path ss = CHR ''/'' # tl (posix_path ss)" "posix_path ss \<noteq> []"
    by (simp_all add: ss posix_path_Cons)
  then have shape: "?in = FS_PREFIX @ tl (posix_path ss)"
    by (simp add: FS_PREFIX_def)
  then have pre: "prefix FS_PREFIX ?in" by simp
  have cin: "carried ?in"
    using fs_segment(3) car by (rule carried_append)
  have "parse_path (''@fs'' @ posix_path ss)
          = posix_path (map (encode_with path_set) (''@fs'' # ss))"
    using sep dots fs_segment(1,2) by (intro parse_path_segments) simp_all
  also have "\<dots> = encode_with path_set (posix_path (''@fs'' # ss))"
    by (simp only: encode_with_posix_path)
  also have "posix_path (''@fs'' # ss) = ?in"
    by (simp add: posix_path_Cons)
  finally have parsed: "parse_path (''@fs'' @ posix_path ss) = encode_with path_set ?in" .
  have "\<forall>c \<in> set (''@fs'' @ posix_path ss). c \<notin> set url_syntax"
    using fs_segment(4) carried_chars [OF car] by auto
  moreover have "last (''@fs'' @ posix_path ss) = last (posix_path ss)"
    using path(2) by simp
  ultimately have "whatwg_URL_new (CHR ''/'' # CHR ''@'' # ''fs'' @ posix_path ss)
      = Inr \<lparr>url_origin = example_com,
             url_pathname = parse_path (CHR ''@'' # ''fs'' @ posix_path ss),
             url_query = None, url_fragment = None\<rparr>"
    using last fs_segment(5) by (intro URL_new_relative) simp_all
  then have new: "whatwg_URL_new ?in = Inr ?u"
    using parsed by simp
  have dec: "decodeURI (encode_with path_set ?in) = Some ?in"
    using cin by (rule decodeURI_path)
  have rest: "slice_units (length FS_PREFIX) ?in = Some (tl (posix_path ss))"
    unfolding shape by (rule slice_units_fs)
  have href: "drop (length (url_origin (whatwg_URL_set_pathname ?u v)))
                (url_href (whatwg_URL_set_pathname ?u v))
              = url_pathname (whatwg_URL_set_pathname ?u v)" for v
    by (simp add: whatwg_URL_set_pathname_def url_href_def Let_def)
  have "raw_fs_request (node_env w files) ?in
          = Inr (Some (rewritten_url (node_env w files) ?u
                  (if w then strip_drive (tl (posix_path ss)) else tl (posix_path ss))))"
    using pre new dec rest
    by (simp only: raw_fs_request_def node_env_def env.simps if_True sum.case option.case
          url.simps Let_def)
  then show ?thesis
    using href by (simp add: rewritten_url_def node_env_def Let_def)
qed

lemma segments_parts:
  assumes "list_all carried_segment segs"
  shows "list_all (list_all (\<lambda>c. \<not> is_separator c)) segs"
    and "list_all (\<lambda>s. \<not> single_dot s \<and> \<not> double_dot s) segs"
  using assms by (induction segs) (simp_all add: carried_segment_parts)

lemma empty_segment: "\<not> single_dot [] \<and> \<not> double_dot []"
  by (simp add: single_dot_def double_dot_def)

lemma drive_letter_facts:
  assumes "drive_letter d"
  shows "lower_ascii d \<in> set ''abcdefghijklmnopqrstuvwxyz''" and "carried_segment [d, CHR '':'']"
proof -
  have "list_all (\<lambda>d. lower_ascii d \<in> set ''abcdefghijklmnopqrstuvwxyz''
                      \<and> carried_segment [d, CHR '':''])
          ''ABCDEFGHIJKLMNOPQRSTUVWXYZabcdefghijklmnopqrstuvwxyz''"
    by code_simp
  with assms show "lower_ascii d \<in> set ''abcdefghijklmnopqrstuvwxyz''"
    and "carried_segment [d, CHR '':'']"
    unfolding drive_letter_def list_all_iff by blast+
qed

lemma sirv_file_carried:
  assumes "list_all carried_segment segs" and "segs \<noteq> []"
  shows "sirv_file (node_env False files) ''/'' (encodeURI (posix_path segs)) = posix_path segs"
proof -
  let ?v = "encodeURI (posix_path segs)"
  have "takeWhile (\<lambda>c. c \<noteq> CHR ''?'' \<and> c \<noteq> CHR ''#'') ?v = ?v"
    unfolding takeWhile_eq_all_conv
    using encoded_path_clean [OF assms(1)] clean_facts(4,5) by auto
  then have url: "cleanUrl (node_env False files) ?v = ?v"
    by (simp only: node_env_def env.simps cleanUrl_model_def)
  have dec: "decodeURI ?v = Some (posix_path segs)"
    using assms(1) by (intro decodeURI_encodeURI carried_posix_path)
  have "path_resolve (node_env False files) ''/'' (removeLeadingSlash (posix_path segs))
          = posix_path segs"
    using posix_resolve_carried [OF assms] by (simp only: node_env_def env.simps)
  then show ?thesis
    by (simp only: sirv_file_def Let_def url dec option.case)
qed

lemma raw_fs_sirv_model:
  assumes "raw_fs_request e u = Inr (Some u')" and "sirv_file e ''/'' u' = p"
  shows "viteServeRawFsMiddleware e (sirv_model e) srv st u
           = (if isFileReadable e p then
                (case checkLoadingAccess e (config srv) p of
                   Allowed \<Rightarrow> Served u' (SentFile p)
                 | Denied \<Rightarrow> AccessDenied (respondWithAccessDenied p srv st)
                 | Fallback \<Rightarrow> Served u' CalledNext)
              else Served u' CalledNext)"
  using assms
  by (simp add: viteServeRawFsMiddleware_def sirv_model_def sirvOptions_def denied_error_def
      catch_block_object split: access.splits)

text \<open>
  C5, as the code has it. Take an absolute path \<open>p\<close> in normal form, \<open>/s1/.../sn\<close> with no
  segment empty, \<open>.\<close> or \<open>..\<close>, that is a well-formed string without \<open>\\<close>, \<open>?\<close>, \<open>#\<close>, tab or
  line break, in which a \<open>%\<close> only stands at the start of the escape of one of
  \<open>;/?:@&=+$,#\<close>, and that does not end in a space or a control character. Spaces inside
  it, brackets, quotes, \<open>|\<close> and characters outside ASCII are all allowed. For the request
  URL made of \<open>FS_PREFIX\<close> and \<open>p\<close>, and for the one of the spec's scenario (\<open>/@fs\<close> followed by
  \<open>p\<close>), the raw-fs stage hands the file server rooted at \<open>/\<close> the request URL
  \<open>encodeURI(p)\<close>, and the candidate file of that request is \<open>p\<close> itself: the stage ends
  with \<open>p\<close> sent when \<open>p\<close> is readable and the policy allows it, with the 403 response for
  \<open>p\<close> when the policy denies it, and with the next handler called otherwise. The project
  root plays no part: the stage does not read it and the file server is rooted at \<open>/\<close>.
  On Windows the stage turns \<open>/@fs/\<close>, a drive letter, a colon and \<open>p\<close> into the same request
  URL \<open>encodeURI(p)\<close>: the drive is stripped.
\<close>

theorem escape_hatch_round_trip:
  assumes "segs \<noteq> []" and "list_all carried_segment segs"
    and "\<not> c0_or_space (last (posix_path segs))"
  shows "raw_fs_request (node_env False files) (FS_PREFIX @ posix_path segs)
           = Inr (Some (encodeURI (posix_path segs)))
       \<and> raw_fs_request (node_env False files) (FS_PREFIX @ tl (posix_path segs))
           = Inr (Some (encodeURI (posix_path segs)))
       \<and> sirv_file (node_env False files) ''/'' (encodeURI (posix_path segs)) = posix_path segs
       \<and> viteServeRawFsMiddleware (node_env False files) (sirv_model (node_env False files))
            srv st (FS_PREFIX @ tl (posix_path segs))
           = (if posix_path segs \<in> set files then
                (case checkLoadingAccess (node_env False files) (config srv) (posix_path segs) of
                   Allowed \<Rightarrow> Served (encodeURI (posix_path segs)) (SentFile (posix_path segs))
                 | Denied \<Rightarrow> AccessDenied (respondWithAccessDenied (posix_path segs) srv st)
                 | Fallback \<Rightarrow> Served (encodeURI (posix_path segs)) CalledNext)
              else Served (encodeURI (posix_path segs)) CalledNext)
       \<and> (drive_letter d
            \<longrightarrow> raw_fs_request (node_env True files)
                   (FS_PREFIX @ [d, CHR '':''] @ posix_path segs)
                  = Inr (Some (encodeURI (posix_path segs))))"
proof -
  let ?p = "posix_path segs"
  from assms(1) obtain x xs where segs: "segs = x # xs" by (cases segs) auto
  have path: "?p = CHR ''/'' # tl ?p" "?p \<noteq> []"
    by (simp_all add: segs posix_path_Cons)
  have car: "carried ?p" using assms(2) by (rule carried_posix_path)
  note parts = segments_parts [OF assms(2)]
  have literal: "raw_fs_request (node_env False files) (FS_PREFIX @ ?p)
                   = Inr (Some (encodeURI ?p))"
  proof -
    have "carried (''/'' @ ?p)"
      using car by (intro carried_append) (simp_all add: utf8_length_def url_syntax_def)
    then have "carried (posix_path ([] # segs))" by (simp add: posix_path_Cons)
    moreover have "last (posix_path ([] # segs)) = last ?p"
      using path(2) by (simp add: posix_path_Cons)
    moreover have "FS_PREFIX @ ?p = ''/@fs'' @ posix_path ([] # segs)"
      by (simp add: FS_PREFIX_def posix_path_Cons)
    moreover have "tl (posix_path ([] # segs)) = ?p" by (simp add: posix_path_Cons)
    ultimately show ?thesis
      using raw_fs_request_segments [of "[] # segs" False files] parts assms(3) empty_segment
        set_pathname_carried(1) [OF assms(2,1)]
      by simp
  qed
  have scenario: "raw_fs_request (node_env False files) (FS_PREFIX @ tl ?p)
                    = Inr (Some (encodeURI ?p))"
  proof -
    have "FS_PREFIX @ tl ?p = ''/@fs'' @ ?p"
      using path(1) by (simp add: FS_PREFIX_def)
    then show ?thesis
      using raw_fs_request_segments [of segs False files] parts car assms
        set_pathname_carried(2) [OF assms(2,1)]
      by simp
  qed
  have cand: "sirv_file (node_env False files) ''/'' (encodeURI ?p) = ?p"
    using assms(2,1) by (rule sirv_file_carried)
  have readable: "isFileReadable (node_env False files) q \<longleftrightarrow> q \<in> set files" for q
    by (simp add: node_env_def)
  note served = raw_fs_sirv_model [OF scenario cand, of srv st, unfolded readable]
  have windows: "raw_fs_request (node_env True files) (FS_PREFIX @ [d, CHR '':''] @ ?p)
                   = Inr (Some (encodeURI ?p))"
    if "drive_letter d"
  proof -
    note dl = drive_letter_facts [OF that]
    let ?ss = "[d, CHR '':''] # segs"
    have "list_all carried_segment ?ss" using dl(2) assms(2) by simp
    then have "list_all (list_all (\<lambda>c. \<not> is_separator c)) ?ss"
      "list_all (\<lambda>s. \<not> single_dot s \<and> \<not> double_dot s) ?ss" "carried (posix_path ?ss)"
      by (rule segments_parts, rule segments_parts, rule carried_posix_path)
    moreover have "last (posix_path ?ss) = last ?p"
      using path(2) by (simp add: posix_path_Cons)
    moreover have "FS_PREFIX @ [d, CHR '':''] @ ?p = ''/@fs'' @ posix_path ?ss"
      by (simp add: FS_PREFIX_def posix_path_Cons)
    moreover have "strip_drive (tl (posix_path ?ss)) = ?p"
      using dl(1) by (simp add: posix_path_Cons strip_drive_def)
    ultimately show ?thesis
      using raw_fs_request_segments [of ?ss True files] assms(3)
        set_pathname_carried(1) [OF assms(2,1)]
      by simp
  qed
  from literal scenario cand served windows show ?thesis by blast
qed

text \<open>
  The linked package of the spec's scenario, \<open>/@fs/home/user/linked-pkg/index.js\<close>, and a
  path with brackets, a space, a letter outside ASCII, a bar and a reserved escape in it.
\<close>

theorem escape_hatch_round_trip_witness:
  "list_all carried_segment [''home'', ''user'', ''linked-pkg'', ''index.js'']
   \<and> \<not> c0_or_space (last (posix_path [''home'', ''user'', ''linked-pkg'', ''index.js'']))
   \<and> drive_letter CHR ''C''
   \<and> raw_fs_request (node_env False linked_files) ''/@fs//home/user/linked-pkg/index.js''
       = Inr (Some ''/home/user/linked-pkg/index.js'')
   \<and> raw_fs_request (node_env False linked_files) ''/@fs/home/user/linked-pkg/index.js''
       = Inr (Some ''/home/user/linked-pkg/index.js'')
   \<and> sirv_file (node_env False linked_files) ''/'' ''/home/user/linked-pkg/index.js''
       = ''/home/user/linked-pkg/index.js''
   \<and> viteServeRawFsMiddleware (node_env False linked_files)
         (sirv_model (node_env False linked_files)) linked_server fresh
         ''/@fs/home/user/linked-pkg/index.js''
       = Served ''/home/user/linked-pkg/index.js'' (SentFile ''/home/user/linked-pkg/index.js'')
   \<and> raw_fs_request (node_env True linked_files) ''/@fs/C:/home/user/linked-pkg/index.js''
       = Inr (Some ''/home/user/linked-pkg/index.js'')
   \<and> list_all carried_segment [''abs'', ''[id] caf'' @ [CHR 0xC3, CHR 0xA9] @ ''|.js'', ''a%2Fb'']
   \<and> \<not> c0_or_space
         (last (posix_path [''abs'', ''[id] caf'' @ [CHR 0xC3, CHR 0xA9] @ ''|.js'', ''a%2Fb'']))
   \<and> raw_fs_request (node_env False linked_files)
         (''/@fs/abs/[id] caf'' @ [CHR 0xC3, CHR 0xA9] @ ''|.js/a%2Fb'')
       = Inr (Some ''/abs/%5Bid%5D%20caf%C3%A9%7C.js/a%252Fb'')
   \<and> sirv_file (node_env False linked_files) ''/'' ''/abs/%5Bid%5D%20caf%C3%A9%7C.js/a%252Fb''
       = ''/abs/[id] caf'' @ [CHR 0xC3, CHR 0xA9] @ ''|.js/a%2Fb''"
proof -
  let ?segs = "[''home'', ''user'', ''linked-pkg'', ''index.js'']"
  let ?p = "''/home/user/linked-pkg/index.js''"
  let ?E = "node_env False linked_files"
  let ?odd = "[''abs'', ''[id] caf'' @ [CHR 0xC3, CHR 0xA9] @ ''|.js'', ''a%2Fb'']"
  let ?q = "''/abs/[id] caf'' @ [CHR 0xC3, CHR 0xA9] @ ''|.js/a%2Fb''"
  let ?u = "''/abs/%5Bid%5D%20caf%C3%A9%7C.js/a%252Fb''"
  have segs: "list_all carried_segment ?segs" by code_simp
  have sp: "\<not> c0_or_space (last (posix_path ?segs))" by code_simp
  have c: "drive_letter CHR ''C''" by code_simp
  have p: "posix_path ?segs = ?p" by (simp add: posix_path_def)
  have e: "encodeURI ?p = ?p" by code_simp
  have ok: "?p \<in> set linked_files" "checkLoadingAccess ?E (config linked_server) ?p = Allowed"
    by code_simp+
  have odd: "list_all carried_segment ?odd" by code_simp
  have osp: "\<not> c0_or_space (last (posix_path ?odd))" by code_simp
  have q: "posix_path ?odd = ?q" by (simp add: posix_path_def)
  have eq: "encodeURI ?q = ?u" by code_simp
  note t = escape_hatch_round_trip [OF _ segs sp, of linked_files linked_server fresh "CHR ''C''",
      unfolded p e]
  note o = escape_hatch_round_trip [OF _ odd osp, of linked_files linked_server fresh "CHR ''C''",
      unfolded q eq]
  have a: "raw_fs_request ?E ''/@fs//home/user/linked-pkg/index.js'' = Inr (Some ?p)"
    using t by (simp add: FS_PREFIX_def)
  have b: "raw_fs_request ?E ''/@fs/home/user/linked-pkg/index.js'' = Inr (Some ?p)"
    using t by (simp add: FS_PREFIX_def)
  have f: "sirv_file ?E ''/'' ?p = ?p"
    using t by simp
  have m: "viteServeRawFsMiddleware ?E (sirv_model ?E) linked_server fresh
             ''/@fs/home/user/linked-pkg/index.js'' = Served ?p (SentFile ?p)"
    using t ok by (simp add: FS_PREFIX_def)
  have w: "raw_fs_request (node_env True linked_files) ''/@fs/C:/home/user/linked-pkg/index.js''
             = Inr (Some ?p)"
    using t c by (simp add: FS_PREFIX_def)
  have r: "raw_fs_request ?E (''/@fs/abs/[id] caf'' @ [CHR 0xC3, CHR 0xA9] @ ''|.js/a%2Fb'')
             = Inr (Some ?u)"
    using o by (simp add: FS_PREFIX_def)
  have g: "sirv_file ?E ''/'' ?u = ?q"
    using o by simp
  from segs sp c a b f m w odd osp r g show ?thesis by (intro conjI)
qed

text \<open>
  The round trip does not hold for every absolute path, and each condition above excludes
  paths for which it fails. In \<open>/abs/file%41.txt\<close> the stage decodes the escape and the
  candidate file is \<open>/abs/fileA.txt\<close>, another file; on \<open>/abs/100%\<close> a \<open>URIError\<close> leaves the
  stage. After \<open>?\<close> and \<open>#\<close> the URL parser reads a query and a fragment: the candidate file
  of \<open>/abs/a?b\<close> and of \<open>/abs/a#b\<close> is \<open>/abs/a\<close>. A backslash is read as a slash, a tab is
  removed, a space at the end is trimmed. The path \<open>/abs/../etc/passwd\<close> names \<open>/etc/passwd\<close>,
  and for \<open>/abs//x\<close> and \<open>/abs/x/\<close> the candidate files are \<open>/abs/x\<close>.
\<close>

theorem escape_hatch_round_trip_counterexample:
  "raw_fs_request (node_env False linked_files) (FS_PREFIX @ ''/abs/file%41.txt'')
     = Inr (Some ''/abs/fileA.txt'')
   \<and> sirv_file (node_env False linked_files) ''/'' ''/abs/fileA.txt'' = ''/abs/fileA.txt''
   \<and> viteServeRawFsMiddleware (node_env False linked_files)
         (sirv_model (node_env False linked_files)) linked_server fresh
         (FS_PREFIX @ tl ''/abs/file%41.txt'')
       = Served ''/abs/fileA.txt'' (SentFile ''/abs/fileA.txt'')
   \<and> viteServeRawFsMiddleware (node_env False linked_files)
         (sirv_model (node_env False linked_files)) linked_server fresh
         (FS_PREFIX @ ''/abs/100%'')
       = Raised URIError
   \<and> raw_fs_request (node_env False linked_files) (FS_PREFIX @ ''/abs/a?b'')
     = Inr (Some ''/abs/a?b'')
   \<and> sirv_file (node_env False linked_files) ''/'' ''/abs/a?b'' = ''/abs/a''
   \<and> raw_fs_request (node_env False linked_files) (FS_PREFIX @ ''/abs/a#b'')
     = Inr (Some ''/abs/a#b'')
   \<and> sirv_file (node_env False linked_files) ''/'' ''/abs/a#b'' = ''/abs/a''
   \<and> raw_fs_request (node_env False linked_files) (FS_PREFIX @ ''/abs'' @ [CHR 0x5C] @ ''x'')
     = Inr (Some ''/abs/x'')
   \<and> raw_fs_request (node_env False linked_files) (FS_PREFIX @ ''/abs/a'' @ [CHR 0x09] @ ''b'')
     = Inr (Some ''/abs/ab'')
   \<and> raw_fs_request (node_env False linked_files) (FS_PREFIX @ ''/abs/x '')
     = Inr (Some ''/abs/x'')
   \<and> sirv_file (node_env False linked_files) ''/'' ''/abs/x'' = ''/abs/x''
   \<and> sirv_file (node_env False linked_files) ''/'' ''/abs/ab'' = ''/abs/ab''
   \<and> raw_fs_request (node_env False linked_files) (FS_PREFIX @ ''/abs/../etc/passwd'')
     = Inr (Some ''/etc/passwd'')
   \<and> sirv_file (node_env False linked_files) ''/'' ''/etc/passwd'' = ''/etc/passwd''
   \<and> raw_fs_request (node_env False linked_files) (FS_PREFIX @ ''/abs//x'')
     = Inr (Some ''/abs//x'')
   \<and> sirv_file (node_env False linked_files) ''/'' ''/abs//x'' = ''/abs/x''
   \<and> raw_fs_request (node_env False linked_files) (FS_PREFIX @ ''/abs/x/'')
     = Inr (Some ''/abs/x/'')
   \<and> sirv_file (node_env False linked_files) ''/'' ''/abs/x/'' = ''/abs/x''"
  by code_simp

end
